theory Spec2Isabelle
  imports Main "HOL-Library.AList"
begin

section \<open>JavaScript strings and the URI component codec\<close>

text \<open>
  A JavaScript string is a sequence of 16-bit UTF-16 code units. It is modelled as the list
  of its code units, each a natural number below \<open>0x10000\<close>; \<open>js\<close> turns an ASCII
  literal into such a list.
\<close>

type_synonym jsstring = "nat list"

definition js :: "string \<Rightarrow> jsstring" where
  "js s = map of_char s"

definition isLeadingSurrogate :: "nat \<Rightarrow> bool" where
  "isLeadingSurrogate c \<longleftrightarrow> 0xD800 \<le> c \<and> c \<le> 0xDBFF"

definition isTrailingSurrogate :: "nat \<Rightarrow> bool" where
  "isTrailingSurrogate c \<longleftrightarrow> 0xDC00 \<le> c \<and> c \<le> 0xDFFF"

text \<open>
  \<open>String.prototype.isWellFormed\<close>: every code unit fits 16 bits and every surrogate is
  half of a leading/trailing pair.
\<close>

fun isWellFormed :: "jsstring \<Rightarrow> bool" where
  "isWellFormed [] = True"
| "isWellFormed [c] = (c < 0x10000 \<and> \<not> isLeadingSurrogate c \<and> \<not> isTrailingSurrogate c)"
| "isWellFormed (c # d # rest) =
     (c < 0x10000 \<and>
      (if isLeadingSurrogate c then isTrailingSurrogate d \<and> isWellFormed rest
       else \<not> isTrailingSurrogate c \<and> isWellFormed (d # rest)))"

subsection \<open>split and join\<close>

text \<open>
  \<open>s.split(sep)\<close> for a one-character separator: the pieces between the separators, in
  order; the empty string splits into one empty piece.
\<close>

fun split :: "nat \<Rightarrow> jsstring \<Rightarrow> jsstring list" where
  "split sep [] = [[]]"
| "split sep (c # cs) =
     (if c = sep then [] # split sep cs
      else (case split sep cs of
              [] \<Rightarrow> [[c]]
            | p # ps \<Rightarrow> (c # p) # ps))"

text \<open>\<open>parts.join(sep)\<close> for a one-character separator.\<close>

fun join :: "nat \<Rightarrow> jsstring list \<Rightarrow> jsstring" where
  "join sep [] = []"
| "join sep [p] = p"
| "join sep (p # q # ps) = p @ sep # join sep (q # ps)"

subsection \<open>encodeURIComponent\<close>

text \<open>
  The unreserved characters of ECMAScript's \<open>Encode\<close>: ASCII letters, digits and
  \<open>- _ . ! ~ * ' ( )\<close>.
\<close>

definition uriUnreserved :: "nat \<Rightarrow> bool" where
  "uriUnreserved c \<longleftrightarrow>
     (0x41 \<le> c \<and> c \<le> 0x5A) \<or> (0x61 \<le> c \<and> c \<le> 0x7A) \<or> (0x30 \<le> c \<and> c \<le> 0x39) \<or>
     c = 0x2D \<or> c = 0x5F \<or> c = 0x2E \<or> c = 0x21 \<or> c = 0x7E \<or> c = 0x2A \<or>
     c = 0x27 \<or> c = 0x28 \<or> c = 0x29"

definition hexDigit :: "nat \<Rightarrow> nat" where
  "hexDigit d = (if d < 10 then 0x30 + d else 0x37 + d)"

text \<open>One octet as \<open>%XY\<close>, upper-case hexadecimal.\<close>

definition escapeOctet :: "nat \<Rightarrow> jsstring" where
  "escapeOctet b = [0x25, hexDigit (b div 16), hexDigit (b mod 16)]"

definition utf8Encode :: "nat \<Rightarrow> nat list" where
  "utf8Encode cp =
     (if cp < 0x80 then [cp]
      else if cp < 0x800 then [0xC0 + cp div 64, 0x80 + cp mod 64]
      else if cp < 0x10000 then
        [0xE0 + cp div 4096, 0x80 + (cp div 64) mod 64, 0x80 + cp mod 64]
      else
        [0xF0 + cp div 262144, 0x80 + (cp div 4096) mod 64,
         0x80 + (cp div 64) mod 64, 0x80 + cp mod 64])"

definition surrogatePairToCodePoint :: "nat \<Rightarrow> nat \<Rightarrow> nat" where
  "surrogatePairToCodePoint lead trail = (lead - 0xD800) * 0x400 + (trail - 0xDC00) + 0x10000"

text \<open>A Unicode scalar value: a code point that is not a surrogate.\<close>

definition isScalarValue :: "nat \<Rightarrow> bool" where
  "isScalarValue cp \<longleftrightarrow> cp < 0x110000 \<and> \<not> (0xD800 \<le> cp \<and> cp \<le> 0xDFFF)"

definition escapeCodePoint :: "nat \<Rightarrow> jsstring" where
  "escapeCodePoint cp = concat (map escapeOctet (utf8Encode cp))"

text \<open>
  \<open>encodeURIComponent(s)\<close>; \<open>None\<close> is the \<open>URIError\<close> that an unpaired surrogate
  raises.
\<close>

fun encodeURIComponent :: "jsstring \<Rightarrow> jsstring option" where
  "encodeURIComponent [] = Some []"
| "encodeURIComponent (c # rest) =
     (if uriUnreserved c then map_option (Cons c) (encodeURIComponent rest)
      else if \<not> isLeadingSurrogate c \<and> \<not> isTrailingSurrogate c then
        map_option (append (escapeCodePoint c)) (encodeURIComponent rest)
      else if isTrailingSurrogate c then None
      else (case rest of
              [] \<Rightarrow> None
            | d # rest' \<Rightarrow>
                if isTrailingSurrogate d then
                  map_option (append (escapeCodePoint (surrogatePairToCodePoint c d)))
                    (encodeURIComponent rest')
                else None))"

subsection \<open>decodeURIComponent\<close>

definition hexValue :: "nat \<Rightarrow> nat option" where
  "hexValue c =
     (if 0x30 \<le> c \<and> c \<le> 0x39 then Some (c - 0x30)
      else if 0x41 \<le> c \<and> c \<le> 0x46 then Some (c - 0x37)
      else if 0x61 \<le> c \<and> c \<le> 0x66 then Some (c - 0x57)
      else None)"

text \<open>An escape \<open>%XY\<close> at the front of the string: its octet and what follows it.\<close>

fun parseEscape :: "jsstring \<Rightarrow> (nat \<times> jsstring) option" where
  "parseEscape (p # x # y # rest) =
     (if p = 0x25 then
        (case hexValue x of
           None \<Rightarrow> None
         | Some a \<Rightarrow> (case hexValue y of None \<Rightarrow> None | Some b \<Rightarrow> Some (16 * a + b, rest)))
      else None)"
| "parseEscape _ = None"

text \<open>A continuation octet \<open>10xxxxxx\<close>, escaped: its six payload bits.\<close>

definition parseContinuation :: "jsstring \<Rightarrow> (nat \<times> jsstring) option" where
  "parseContinuation s =
     (case parseEscape s of
        None \<Rightarrow> None
      | Some (b, rest) \<Rightarrow> if 0x80 \<le> b \<and> b < 0xC0 then Some (b - 0x80, rest) else None)"

definition utf16EncodeCodePoint :: "nat \<Rightarrow> jsstring" where
  "utf16EncodeCodePoint cp =
     (if cp < 0x10000 then [cp]
      else [(cp - 0x10000) div 0x400 + 0xD800, (cp - 0x10000) mod 0x400 + 0xDC00])"

text \<open>
  One escaped character at the front of the string (which starts with \<open>%\<close>): the code
  units it decodes to and the rest. The octets must be the UTF-8 encoding of a Unicode
  scalar value: no overlong form, no surrogate, nothing above \<open>0x10FFFF\<close>.
\<close>

definition decodeEscaped :: "jsstring \<Rightarrow> (jsstring \<times> jsstring) option" where
  "decodeEscaped s =
     (case parseEscape s of
        None \<Rightarrow> None
      | Some (b, r0) \<Rightarrow>
          if b < 0x80 then Some ([b], r0)
          else if b < 0xC0 then None
          else if b < 0xE0 then
            (case parseContinuation r0 of
               None \<Rightarrow> None
             | Some (c1, r1) \<Rightarrow>
                 let v = (b - 0xC0) * 64 + c1
                 in if v < 0x80 then None else Some ([v], r1))
          else if b < 0xF0 then
            (case parseContinuation r0 of
               None \<Rightarrow> None
             | Some (c1, r1) \<Rightarrow>
                 (case parseContinuation r1 of
                    None \<Rightarrow> None
                  | Some (c2, r2) \<Rightarrow>
                      let v = (b - 0xE0) * 4096 + c1 * 64 + c2
                      in if v < 0x800 \<or> (0xD800 \<le> v \<and> v \<le> 0xDFFF) then None
                         else Some ([v], r2)))
          else if b < 0xF8 then
            (case parseContinuation r0 of
               None \<Rightarrow> None
             | Some (c1, r1) \<Rightarrow>
                 (case parseContinuation r1 of
                    None \<Rightarrow> None
                  | Some (c2, r2) \<Rightarrow>
                      (case parseContinuation r2 of
                         None \<Rightarrow> None
                       | Some (c3, r3) \<Rightarrow>
                           let v = (b - 0xF0) * 262144 + c1 * 4096 + c2 * 64 + c3
                           in if v < 0x10000 \<or> 0x10FFFF < v then None
                              else Some (utf16EncodeCodePoint v, r3))))
          else None)"

lemma parseEscape_length: "parseEscape s = Some (b, r) \<Longrightarrow> length r < length s"
  by (induction s rule: parseEscape.induct) (auto split: if_splits option.splits)

lemma parseContinuation_length: "parseContinuation s = Some (b, r) \<Longrightarrow> length r < length s"
  by (auto simp: parseContinuation_def split: option.splits if_splits dest: parseEscape_length)

lemma decodeEscaped_length: "decodeEscaped s = Some (u, r) \<Longrightarrow> length r < length s"
  unfolding decodeEscaped_def
  by (auto split: option.splits if_splits simp: Let_def
      dest!: parseEscape_length parseContinuation_length)

text \<open>
  \<open>decodeURIComponent(s)\<close>; \<open>None\<close> is the \<open>URIError\<close> that a malformed escape
  raises.
\<close>

function decodeURIComponent :: "jsstring \<Rightarrow> jsstring option" where
  "decodeURIComponent [] = Some []"
| "decodeURIComponent (c # rest) =
     (if c \<noteq> 0x25 then map_option (Cons c) (decodeURIComponent rest)
      else (case decodeEscaped (c # rest) of
              None \<Rightarrow> None
            | Some (u, rest') \<Rightarrow> map_option (append u) (decodeURIComponent rest')))"
  by pat_completeness auto
termination
  by (relation "measure length") (auto dest: decodeEscaped_length)


section \<open>Query strings (router.js)\<close>

text \<open>
  The values a query object holds: a string or \<open>true\<close>, and the \<open>null\<close> and
  \<open>undefined\<close> that \<open>buildQueryString\<close> skips. An object is the list of its own
  enumerable entries, as \<open>Object.entries\<close> returns them; its keys are distinct.
\<close>

datatype qvalue = QString jsstring | QTrue | QNull | QUndefined

type_synonym object = "(jsstring \<times> qvalue) list"

datatype error = URIError | Error jsstring

text \<open>
  \<open>obj[key] = value\<close> on an object created by \<open>{}\<close>: a new key is appended, an existing
  one is overwritten in place (the list keeps insertion order; JavaScript enumerates
  integer-like keys first, and nothing below depends on the order). The key
  \<open>__proto__\<close> is the accessor inherited from \<open>Object.prototype\<close>, whose setter ignores
  a string or a boolean: no own property is created.
\<close>

definition setProperty :: "object \<Rightarrow> jsstring \<Rightarrow> qvalue \<Rightarrow> object" where
  "setProperty obj key v = (if key = js ''__proto__'' then obj else AList.update key v obj)"

text \<open>
  The body of \<open>parseQueryString\<close>'s \<open>forEach\<close>, over the segments that are left.
  \<open>[key, value] = param.split('=')\<close> takes the first two pieces; \<open>value\<close> is undefined
  when there is one piece only, and then, or when it is empty, the key maps to \<open>true\<close>.
\<close>

fun parseParams :: "jsstring list \<Rightarrow> object \<Rightarrow> error + object" where
  "parseParams [] params = Inr params"
| "parseParams (param # rest) params =
     (case split 0x3D param of
        [] \<Rightarrow> parseParams rest params
      | key # more \<Rightarrow>
          if key \<noteq> [] then
            (case decodeURIComponent key of
               None \<Rightarrow> Inl URIError
             | Some k \<Rightarrow>
                 (case more of
                    [] \<Rightarrow> parseParams rest (setProperty params k QTrue)
                  | v # _ \<Rightarrow>
                      if v \<noteq> [] then
                        (case decodeURIComponent v of
                           None \<Rightarrow> Inl URIError
                         | Some dv \<Rightarrow> parseParams rest (setProperty params k (QString dv)))
                      else parseParams rest (setProperty params k QTrue)))
          else parseParams rest params)"

definition parseQueryString :: "jsstring \<Rightarrow> error + object" where
  "parseQueryString queryString =
     (if queryString = [] then Inr [] else parseParams (split 0x26 queryString) [])"

text \<open>
  The body of \<open>buildQueryString\<close>'s \<open>forEach\<close>, over the entries that are left, with the
  parts pushed so far.
\<close>

fun buildQueryParts :: "object \<Rightarrow> jsstring list \<Rightarrow> error + jsstring list" where
  "buildQueryParts [] queryParts = Inr queryParts"
| "buildQueryParts ((key, v) # rest) queryParts =
     (if v \<noteq> QNull \<and> v \<noteq> QUndefined then
        (case encodeURIComponent key of
           None \<Rightarrow> Inl URIError
         | Some encodedKey \<Rightarrow>
             (case v of
                QString str \<Rightarrow>
                  (case encodeURIComponent str of
                     None \<Rightarrow> Inl URIError
                   | Some encodedValue \<Rightarrow>
                       buildQueryParts rest (queryParts @ [encodedKey @ 0x3D # encodedValue]))
              | _ \<Rightarrow> buildQueryParts rest (queryParts @ [encodedKey])))
      else buildQueryParts rest queryParts)"

definition buildQueryString :: "object \<Rightarrow> error + jsstring" where
  "buildQueryString params =
     (case buildQueryParts params [] of
        Inl e \<Rightarrow> Inl e
      | Inr queryParts \<Rightarrow> Inr (if queryParts \<noteq> [] then 0x3F # join 0x26 queryParts else []))"

text \<open>
  The part \<open>buildQueryString\<close> pushes for one entry that is neither \<open>null\<close> nor
  \<open>undefined\<close>, and the entries whose part \<open>parseQueryString\<close> reads back as they were:
  a non-empty well-formed key with \<open>true\<close> or a non-empty well-formed string.
\<close>

definition queryPart :: "jsstring \<Rightarrow> qvalue \<Rightarrow> jsstring option" where
  "queryPart key v =
     (case encodeURIComponent key of
        None \<Rightarrow> None
      | Some encodedKey \<Rightarrow>
          (case v of
             QString str \<Rightarrow>
               map_option (\<lambda>encodedValue. encodedKey @ 0x3D # encodedValue)
                 (encodeURIComponent str)
           | _ \<Rightarrow> Some encodedKey))"

definition roundTrips :: "jsstring \<Rightarrow> qvalue \<Rightarrow> bool" where
  "roundTrips k v \<longleftrightarrow>
     k \<noteq> [] \<and> isWellFormed k \<and>
     (case v of QString str \<Rightarrow> str \<noteq> [] \<and> isWellFormed str | QTrue \<Rightarrow> True | _ \<Rightarrow> False)"

section \<open>The application shell (app.js)\<close>

text \<open>
  The part of \<open>App\<close> that the router drives: the menu configuration, the module cache
  \<open>loadedModules\<close>, the content anchor and the active module id. \<open>requests\<close> logs the
  URLs handed to \<open>loadVersionedFile\<close> and \<open>loadVersionedScript\<close>, \<open>initCalls\<close> the
  module instances whose \<open>init()\<close> was called. The loading overlay and the menu
  highlight are presentation only and are left out; of the page title only the failure to
  build it is kept. The DOM anchors exist: \<open>initDOMElements\<close> checked them before the
  router was created.

  In the menu configuration \<open>defaultModule\<close> is \<open>settings.defaultModule\<close> and
  \<open>applicationTitle\<close> is \<open>application.title\<close>, each \<open>None\<close> when the object that holds it
  is missing.
\<close>

record moduleInstance =
  className :: jsstring
  hasInit :: bool

record cachedModule =
  cached_html :: jsstring
  cached_instance :: "moduleInstance option"

record menuItem =
  item_module :: jsstring
  item_label :: jsstring

record menuConfig =
  menuItems :: "menuItem list"
  defaultModule :: "jsstring option"
  applicationTitle :: "jsstring option"

datatype content = Welcome | Markup jsstring | ErrorPanel jsstring

record app =
  menuConfig :: "menuConfig option"
  loadedModules :: "jsstring \<rightharpoonup> cachedModule"
  currentModule :: "jsstring option"
  mainContent :: content
  requests :: "jsstring list"
  initCalls :: "moduleInstance list"

section \<open>The router state (router.js)\<close>

record route =
  route_id :: jsstring
  path :: jsstring
  module :: jsstring
  title :: jsstring
  description :: jsstring
  icon :: jsstring
  requiresAuth :: bool
  params :: object
  query :: object

record historyEntry =
  entry_id :: jsstring
  entry_params :: object
  entry_query :: object
  timestamp :: nat

record routeConfig =
  config_path :: "jsstring option"
  config_module :: "jsstring option"
  config_title :: "jsstring option"
  config_description :: "jsstring option"
  config_icon :: "jsstring option"
  config_requiresAuth :: "bool option"

text \<open>
  The router's fields; \<open>locationHash\<close> is \<open>window.location.hash\<close>, which the router
  writes in hash mode (the only mode the constructor configures).
\<close>

record router =
  app :: app
  routes :: "jsstring \<rightharpoonup> route"
  currentRoute :: "route option"
  history :: "historyEntry list"
  maxHistorySize :: nat
  locationHash :: jsstring

text \<open>
  What the code reads from outside: the two overridable stubs \<open>checkAuthentication\<close> and
  \<open>executeBeforeNavigationHooks\<close> (both return \<open>true\<close> as shipped), the clock, the
  template fetch (\<open>None\<close> when it rejects) and the outcome of loading a module's script and
  constructing its class (\<open>None\<close> when the script fails, the class is missing or its
  constructor throws).
\<close>

record env =
  checkAuthentication :: bool
  executeBeforeNavigationHooks :: "route \<Rightarrow> bool"
  dateNow :: nat
  loadVersionedFile :: "jsstring \<Rightarrow> jsstring option"
  instantiateModule :: "jsstring \<Rightarrow> moduleInstance option"

subsection \<open>App.loadModule, App.renderModule, App.navigateToModule, App.clearCache\<close>

definition renderModule :: "app \<Rightarrow> jsstring \<Rightarrow> moduleInstance option \<Rightarrow> app" where
  "renderModule a markup moduleInst =
     (let a1 = a\<lparr>mainContent := Markup markup\<rparr>
      in case moduleInst of
           None \<Rightarrow> a1
         | Some i \<Rightarrow> if hasInit i then a1\<lparr>initCalls := initCalls a1 @ [i]\<rparr> else a1)"

text \<open>
  \<open>loadModule\<close> returns nothing; the result is whether it threw, with the state it left.
  On a cache miss both requests are issued before the template is awaited; a failing
  script leaves the instance \<open>null\<close>, a failing template rethrows (the cause appended to
  the message is left out).
\<close>

definition loadModule :: "env \<Rightarrow> app \<Rightarrow> jsstring \<Rightarrow> (error + unit) \<times> app" where
  "loadModule E a moduleId =
     (case loadedModules a moduleId of
        Some cachedModule \<Rightarrow>
          (Inr (), renderModule a (cached_html cachedModule) (cached_instance cachedModule))
      | None \<Rightarrow>
          let templateUrl = js ''templates/modules/'' @ moduleId @ js ''.html'';
              scriptUrl = js ''js/modules/'' @ moduleId @ js ''.js'';
              a1 = a\<lparr>requests := requests a @ [templateUrl, scriptUrl]\<rparr>;
              moduleInst = instantiateModule E moduleId
          in case loadVersionedFile E templateUrl of
               None \<Rightarrow>
                 (Inl (Error (js ''Erreur lors du chargement du module '' @ moduleId)), a1)
             | Some markup \<Rightarrow>
                 (Inr (),
                  renderModule
                    (a1\<lparr>loadedModules :=
                      (loadedModules a1)(moduleId \<mapsto>
                        \<lparr>cached_html = markup, cached_instance = moduleInst\<rparr>)\<rparr>)
                    markup moduleInst))"

definition showError :: "app \<Rightarrow> jsstring \<Rightarrow> app" where
  "showError a message = a\<lparr>mainContent := ErrorPanel message\<rparr>"

text \<open>
  \<open>navigateToModule(moduleId, false)\<close>, as the router calls it: every failure (no
  configuration, an unknown module, a failed load, no \<open>application\<close> object to take the
  page title from) is caught inside and shown in the error panel, so nothing is thrown to
  the router.
\<close>

definition navigateToModule :: "env \<Rightarrow> app \<Rightarrow> jsstring \<Rightarrow> app" where
  "navigateToModule E a moduleId =
     (let message = js ''Impossible de charger le module: '' @ moduleId
      in case menuConfig a of
           None \<Rightarrow> showError a message
         | Some config \<Rightarrow>
             (case find (\<lambda>item. item_module item = moduleId) (menuItems config) of
                None \<Rightarrow> showError a message
              | Some moduleConfig \<Rightarrow>
                  (case loadModule E a moduleId of
                     (Inl e, a1) \<Rightarrow> showError a1 message
                   | (Inr u, a1) \<Rightarrow>
                       if applicationTitle config = None then showError a1 message
                       else a1\<lparr>currentModule := Some moduleId\<rparr>)))"


subsection \<open>Router: constructor, registerRoute, saveToHistory, updateURL\<close>

text \<open>The fields as the constructor sets them, before \<open>init()\<close> runs.\<close>

definition newRouter :: "app \<Rightarrow> jsstring \<Rightarrow> router" where
  "newRouter a hash =
     \<lparr>app = a, routes = Map.empty, currentRoute = None, history = [],
      maxHistorySize = 50, locationHash = hash\<rparr>"

text \<open>\<open>x || y\<close> for an optional string: absent and empty are both falsy.\<close>

definition orElse :: "jsstring option \<Rightarrow> jsstring \<Rightarrow> jsstring" where
  "orElse x y = (case x of None \<Rightarrow> y | Some str \<Rightarrow> if str \<noteq> [] then str else y)"

definition registerRoute :: "router \<Rightarrow> jsstring \<Rightarrow> routeConfig \<Rightarrow> error + router" where
  "registerRoute s routeId routeConfig =
     (if config_module routeConfig = None \<or> config_module routeConfig = Some [] then
        Inl (Error (js ''Configuration de route invalide pour: '' @ routeId))
      else
        let path0 = orElse (config_path routeConfig) routeId;
            path1 = (if take 1 path0 = [0x23] then drop 1 path0 else path0);
            newRoute =
              \<lparr>route_id = routeId,
               path = path1,
               module = orElse (config_module routeConfig) [],
               title = orElse (config_title routeConfig) routeId,
               description = orElse (config_description routeConfig) [],
               icon = orElse (config_icon routeConfig) (js ''fas fa-page''),
               requiresAuth = (config_requiresAuth routeConfig = Some True),
               params = [],
               query = []\<rparr>
        in Inr (s\<lparr>routes := (routes s)(routeId \<mapsto> newRoute)\<rparr>))"

text \<open>
  \<open>saveToHistory(route)\<close>: \<open>route.id !== this.currentRoute?.id\<close> compares the id with
  \<open>undefined\<close> when there is no current route.
\<close>

definition saveToHistory :: "env \<Rightarrow> router \<Rightarrow> route option \<Rightarrow> router" where
  "saveToHistory E s r =
     (case r of
        None \<Rightarrow> s
      | Some rt \<Rightarrow>
          if Some (route_id rt) \<noteq> map_option route_id (currentRoute s) then
            let pushed = history s @
                  [\<lparr>entry_id = route_id rt, entry_params = params rt,
                    entry_query = query rt, timestamp = dateNow E\<rparr>]
            in s\<lparr>history := (if maxHistorySize s < length pushed then tl pushed else pushed)\<rparr>
          else s)"

definition updateURL :: "router \<Rightarrow> route \<Rightarrow> error + router" where
  "updateURL s rt =
     (case buildQueryString (query rt) of
        Inl e \<Rightarrow> Inl e
      | Inr queryString \<Rightarrow> Inr (s\<lparr>locationHash := 0x23 # path rt @ queryString\<rparr>))"

text \<open>\<open>this.app.menuConfig?.settings?.defaultModule || 'accueil'\<close>\<close>

definition defaultRoute :: "app \<Rightarrow> jsstring" where
  "defaultRoute a =
     (case menuConfig a of
        None \<Rightarrow> js ''accueil''
      | Some config \<Rightarrow> orElse (defaultModule config) (js ''accueil''))"

subsection \<open>Router.navigate, Router.handleNavigationError, Router.goBack\<close>

text \<open>
  \<open>navigate\<close> calls itself, directly for the \<open>login\<close> redirect and through
  \<open>handleNavigationError\<close> for the fallback, and with a failing authorization check the
  redirects need not end. The first argument bounds the depth of nested \<open>navigate\<close>
  calls; \<open>None\<close> says the bound was reached. The result is the value the returned promise
  resolves to and the state once the nested navigations have settled, no other call
  running in between. The post-navigation hook, the scroll reset and the custom event
  touch neither the router nor the application state.
\<close>

fun navigate :: "nat \<Rightarrow> env \<Rightarrow> router \<Rightarrow> jsstring \<Rightarrow> object \<Rightarrow> object \<Rightarrow> (bool \<times> router) option"
  and handleNavigationError :: "nat \<Rightarrow> env \<Rightarrow> router \<Rightarrow> jsstring \<Rightarrow> router option"
where
  "navigate 0 E s routeId ps qs = None"
| "navigate (Suc n) E s routeId ps qs =
     (case routes s routeId of
        None \<Rightarrow> map_option (Pair False) (handleNavigationError n E s routeId)
      | Some rt \<Rightarrow>
          if requiresAuth rt \<and> \<not> checkAuthentication E then
            map_option (\<lambda>res. (False, snd res)) (navigate n E s (js ''login'') [] [])
          else
            let preparedRoute = rt\<lparr>params := ps, query := qs\<rparr>;
                s1 = saveToHistory E s (currentRoute s)
            in if \<not> executeBeforeNavigationHooks E preparedRoute then Some (False, s1)
               else
                 let s2 = s1\<lparr>currentRoute := Some preparedRoute\<rparr>
                 in case updateURL s2 preparedRoute of
                      Inl e \<Rightarrow> map_option (Pair False) (handleNavigationError n E s2 routeId)
                    | Inr s3 \<Rightarrow>
                        Some (True, s3\<lparr>app := navigateToModule E (app s3) (module rt)\<rparr>))"
| "handleNavigationError n E s routeId =
     (let fallbackRoute = defaultRoute (app s)
      in if routeId \<noteq> fallbackRoute then
           map_option snd (navigate n E s fallbackRoute [] [])
         else Some s)"

text \<open>
  \<open>goBack()\<close> does not await the navigation it starts; the state returned is the one
  after that navigation has settled. A popped entry is an object, hence truthy.
\<close>

definition goBack :: "nat \<Rightarrow> env \<Rightarrow> router \<Rightarrow> (bool \<times> router) option" where
  "goBack n E s =
     (if history s \<noteq> [] then
        let previousRoute = last (history s);
            s1 = s\<lparr>history := butlast (history s)\<rparr>
        in map_option (\<lambda>res. (True, snd res))
             (navigate n E s1 (entry_id previousRoute) (entry_params previousRoute)
                (entry_query previousRoute))
      else
        map_option (\<lambda>res. (False, snd res)) (navigate n E s (defaultRoute (app s)) [] []))"

definition getCurrentRoute :: "router \<Rightarrow> route option" where
  "getCurrentRoute s = currentRoute s"


subsection \<open>Sequences of router calls\<close>

text \<open>
  The calls a client can make on a router, and a sequence of them run one after the other.
  A \<open>registerRoute\<close> that throws leaves the router as it was.
\<close>

datatype operation =
    Navigate jsstring object object
  | GoBack
  | RegisterRoute jsstring routeConfig
  | SaveToHistory "route option"

fun perform :: "nat \<Rightarrow> env \<Rightarrow> router \<Rightarrow> operation \<Rightarrow> router option" where
  "perform n E s (Navigate routeId ps qs) = map_option snd (navigate n E s routeId ps qs)"
| "perform n E s GoBack = map_option snd (goBack n E s)"
| "perform n E s (RegisterRoute routeId routeConfig) =
     (case registerRoute s routeId routeConfig of Inl e \<Rightarrow> Some s | Inr s' \<Rightarrow> Some s')"
| "perform n E s (SaveToHistory r) = Some (saveToHistory E s r)"

fun run :: "nat \<Rightarrow> env \<Rightarrow> router \<Rightarrow> operation list \<Rightarrow> router option" where
  "run n E s [] = Some s"
| "run n E s (x # xs) = (case perform n E s x of None \<Rightarrow> None | Some s' \<Rightarrow> run n E s' xs)"

subsection \<open>A small configuration used in the examples\<close>

definition exampleEnv :: env where
  "exampleEnv =
     \<lparr>checkAuthentication = True,
      executeBeforeNavigationHooks = (\<lambda>rt. True),
      dateNow = 1000,
      loadVersionedFile =
        (\<lambda>url. if url = js ''templates/modules/accueil.html'' then Some (js ''<h1>A</h1>'')
              else None),
      instantiateModule = (\<lambda>moduleId. None)\<rparr>"

definition exampleApp :: app where
  "exampleApp =
     \<lparr>menuConfig = Some \<lparr>menuItems =
          [\<lparr>item_module = js ''accueil'', item_label = js ''Accueil''\<rparr>,
           \<lparr>item_module = js ''equipes'', item_label = js ''Equipes''\<rparr>],
        defaultModule = Some (js ''accueil''),
        applicationTitle = Some (js ''Gestion sportive'')\<rparr>,
      loadedModules = Map.empty, currentModule = None, mainContent = Welcome,
      requests = [], initCalls = []\<rparr>"

definition exampleRoute :: "string \<Rightarrow> route" where
  "exampleRoute name =
     \<lparr>route_id = js name, path = js name, module = js name, title = js name,
      description = [], icon = js ''fas fa-page'', requiresAuth = False,
      params = [], query = []\<rparr>"

definition exampleRouter :: router where
  "exampleRouter =
     \<lparr>app = exampleApp,
      routes = [js ''accueil'' \<mapsto> exampleRoute ''accueil'',
                js ''equipes'' \<mapsto> exampleRoute ''equipes''],
      currentRoute = Some (exampleRoute ''equipes''),
      history = [], maxHistorySize = 50, locationHash = js ''#equipes''\<rparr>"

definition configuredRouter :: router where
  "configuredRouter =
     exampleRouter
       \<lparr>app := exampleApp
          \<lparr>menuConfig := Some \<lparr>menuItems =
               [\<lparr>item_module = js ''accueil'', item_label = js ''Accueil''\<rparr>,
                \<lparr>item_module = js ''equipes'', item_label = js ''Equipes''\<rparr>],
             defaultModule = Some (js ''equipes''),
             applicationTitle = Some (js ''Gestion sportive'')\<rparr>\<rparr>\<rparr>"

definition exampleEntry :: historyEntry where
  "exampleEntry =
     \<lparr>entry_id = js ''accueil'', entry_params = [], entry_query = [(js ''tab'', QTrue)],
      timestamp = 900\<rparr>"

definition exampleConfig :: "string \<Rightarrow> string \<Rightarrow> routeConfig" where
  "exampleConfig p m =
     \<lparr>config_path = Some (js p), config_module = Some (js m), config_title = None,
      config_description = None, config_icon = None, config_requiresAuth = None\<rparr>"

definition exampleCalls :: "operation list" where
  "exampleCalls =
     [RegisterRoute (js ''accueil'') (exampleConfig ''#accueil'' ''accueil''),
      Navigate (js ''accueil'') [] [],
      SaveToHistory (Some (exampleRoute ''equipes'')),
      GoBack]"


definition exampleQuery :: object where
  "exampleQuery = [(js ''a'', QString (js ''b c'')), (js ''k'', QTrue)]"

section \<open>Navigation\<close>

lemma js_simps: "js [] = []" "js (c # cs) = of_char c # js cs"
  by (simp_all add: js_def)

text \<open>
  \<open>navigate\<close> hands \<open>saveToHistory\<close> the current route itself, whose id is never
  different from the current route's id: the call changes nothing.
\<close>

lemma saveToHistory_current: "saveToHistory E s (currentRoute s) = s"
  by (cases "currentRoute s") (simp_all add: saveToHistory_def)

lemma handleNavigationError_cases:
  "handleNavigationError n E s routeId =
     (if routeId \<noteq> defaultRoute (app s)
      then map_option snd (navigate n E s (defaultRoute (app s)) [] []) else Some s)"
  by (simp add: Let_def)

text \<open>The five ways through \<open>navigate\<close>.\<close>

lemma navigate_unknown:
  "routes s routeId = None \<Longrightarrow>
   navigate (Suc n) E s routeId ps qs =
     map_option (Pair False) (handleNavigationError n E s routeId)"
  by simp

lemma navigate_login:
  "routes s routeId = Some rt \<Longrightarrow> requiresAuth rt \<Longrightarrow> \<not> checkAuthentication E \<Longrightarrow>
   navigate (Suc n) E s routeId ps qs =
     map_option (\<lambda>res. (False, snd res)) (navigate n E s (js ''login'') [] [])"
  by simp

lemma navigate_veto:
  "routes s routeId = Some rt \<Longrightarrow> requiresAuth rt \<longrightarrow> checkAuthentication E \<Longrightarrow>
   \<not> executeBeforeNavigationHooks E (rt\<lparr>params := ps, query := qs\<rparr>) \<Longrightarrow>
   navigate (Suc n) E s routeId ps qs = Some (False, s)"
  by (auto simp: saveToHistory_current)

lemma navigate_throw:
  "routes s routeId = Some rt \<Longrightarrow> requiresAuth rt \<longrightarrow> checkAuthentication E \<Longrightarrow>
   executeBeforeNavigationHooks E (rt\<lparr>params := ps, query := qs\<rparr>) \<Longrightarrow>
   buildQueryString qs = Inl e \<Longrightarrow>
   navigate (Suc n) E s routeId ps qs =
     map_option (Pair False)
       (handleNavigationError n E (s\<lparr>currentRoute := Some (rt\<lparr>params := ps, query := qs\<rparr>)\<rparr>)
          routeId)"
  by (auto simp: saveToHistory_current updateURL_def Let_def
      simp del: handleNavigationError.simps)

lemma navigate_success:
  "routes s routeId = Some rt \<Longrightarrow> requiresAuth rt \<longrightarrow> checkAuthentication E \<Longrightarrow>
   executeBeforeNavigationHooks E (rt\<lparr>params := ps, query := qs\<rparr>) \<Longrightarrow>
   buildQueryString qs = Inr queryString \<Longrightarrow>
   navigate (Suc n) E s routeId ps qs =
     Some (True,
       s\<lparr>currentRoute := Some (rt\<lparr>params := ps, query := qs\<rparr>),
         locationHash := 0x23 # path rt @ queryString,
         app := navigateToModule E (app s) (module rt)\<rparr>)"
  by (auto simp: saveToHistory_current updateURL_def Let_def)

declare handleNavigationError.simps [simp del]
declare navigate.simps(2) [simp del]

lemma example_simps:
  "routes exampleRouter (js ''accueil'') = Some (exampleRoute ''accueil'')"
  "routes exampleRouter (js ''equipes'') = Some (exampleRoute ''equipes'')"
  "routes exampleRouter (js ''unknown-id'') = None"
  "defaultRoute (app exampleRouter) = js ''accueil''"
  "\<not> requiresAuth (exampleRoute name)"
  "checkAuthentication exampleEnv"
  "executeBeforeNavigationHooks exampleEnv rt"
  by (simp_all add: exampleRouter_def exampleRoute_def exampleEnv_def exampleApp_def
      defaultRoute_def orElse_def js_simps)

text \<open>
  Nothing \<open>navigate\<close> does reaches the history, the route table or the history bound.
\<close>

lemma navigate_keeps:
  "navigate n E s routeId ps qs = Some (b, s') \<Longrightarrow>
   history s' = history s \<and> routes s' = routes s \<and> maxHistorySize s' = maxHistorySize s"
proof (induction n arbitrary: s routeId ps qs b s')
  case 0
  then show ?case by simp
next
  case (Suc n)
  have handle: "history t' = history t \<and> routes t' = routes t \<and> maxHistorySize t' = maxHistorySize t"
    if "handleNavigationError n E t r = Some t'" for t t' r
    using that Suc.IH[of t "defaultRoute (app t)" "[]" "[]" _ t']
    by (auto simp: handleNavigationError_cases split: if_splits)
  show ?case
  proof (cases "routes s routeId")
    case None
    with Suc.prems show ?thesis
      by (auto simp: navigate_unknown dest: handle)
  next
    case (Some rt)
    show ?thesis
    proof (cases "requiresAuth rt \<and> \<not> checkAuthentication E")
      case True
      with Some Suc.prems show ?thesis
        using Suc.IH[of s "js ''login''" "[]" "[]"]
        by (auto simp: navigate_login)
    next
      case False
      then have auth: "requiresAuth rt \<longrightarrow> checkAuthentication E" by simp
      show ?thesis
      proof (cases "executeBeforeNavigationHooks E (rt\<lparr>params := ps, query := qs\<rparr>)")
        case False
        with Suc.prems show ?thesis
          by (simp add: navigate_veto[OF Some auth])
      next
        case True
        show ?thesis
        proof (cases "buildQueryString qs")
          case (Inl e)
          with Suc.prems show ?thesis
            by (auto simp: navigate_throw[OF Some auth True] dest!: handle)
        next
          case (Inr queryString)
          with Suc.prems show ?thesis
            by (auto simp: navigate_success[OF Some auth True])
        qed
      qed
    qed
  qed
qed

text \<open>A result reached within some bound is the result within every larger bound.\<close>

lemma navigate_more_fuel:
  "navigate n E s routeId ps qs = Some res \<Longrightarrow> navigate (n + k) E s routeId ps qs = Some res"
proof (induction n arbitrary: s routeId ps qs res)
  case 0
  then show ?case by simp
next
  case (Suc n)
  have handle: "handleNavigationError (n + k) E t r = Some t'"
    if "handleNavigationError n E t r = Some t'" for t t' r
    using that Suc.IH[of t "defaultRoute (app t)" "[]" "[]"]
    by (auto simp: handleNavigationError_cases split: if_splits)
  show ?case
  proof (cases "routes s routeId")
    case None
    with Suc.prems show ?thesis
      by (auto simp: navigate_unknown dest: handle)
  next
    case (Some rt)
    show ?thesis
    proof (cases "requiresAuth rt \<and> \<not> checkAuthentication E")
      case True
      with Some Suc.prems show ?thesis
        using Suc.IH[of s "js ''login''" "[]" "[]"]
        by (auto simp: navigate_login)
    next
      case False
      then have auth: "requiresAuth rt \<longrightarrow> checkAuthentication E" by simp
      show ?thesis
      proof (cases "executeBeforeNavigationHooks E (rt\<lparr>params := ps, query := qs\<rparr>)")
        case False
        with Suc.prems show ?thesis
          by (simp add: navigate_veto[OF Some auth])
      next
        case True
        show ?thesis
        proof (cases "buildQueryString qs")
          case (Inl e)
          with Suc.prems show ?thesis
            by (auto simp: navigate_throw[OF Some auth True] dest!: handle)
        next
          case (Inr queryString)
          with Suc.prems show ?thesis
            by (auto simp: navigate_success[OF Some auth True])
        qed
      qed
    qed
  qed
qed

lemma buildQueryString_Nil: "buildQueryString [] = Inr []"
  by (simp add: buildQueryString_def)

text \<open>When the authorization check passes, two levels of nesting are all a call needs.\<close>

lemma navigate_default_settles:
  assumes "checkAuthentication E"
  shows "\<exists>b s'. navigate (Suc n) E s (defaultRoute (app s)) [] [] = Some (b, s')"
proof (cases "routes s (defaultRoute (app s))")
  case None
  then show ?thesis
    by (auto simp: navigate_unknown handleNavigationError_cases)
next
  case (Some rt)
  have auth: "requiresAuth rt \<longrightarrow> checkAuthentication E" using assms by simp
  show ?thesis
  proof (cases "executeBeforeNavigationHooks E (rt\<lparr>params := [], query := []\<rparr>)")
    case False
    then show ?thesis by (auto simp: navigate_veto[OF Some auth])
  next
    case True
    show ?thesis
      by (auto simp: navigate_success[OF Some auth True buildQueryString_Nil])
  qed
qed

lemma handleNavigationError_settles:
  assumes "checkAuthentication E"
  shows "\<exists>s'. handleNavigationError (Suc n) E s routeId = Some s'"
  using navigate_default_settles[OF assms, of n s]
  by (auto simp: handleNavigationError_cases)

lemma navigate_settles:
  assumes "checkAuthentication E"
  shows "\<exists>b s'. navigate (Suc (Suc n)) E s routeId ps qs = Some (b, s')"
proof (cases "routes s routeId")
  case None
  then show ?thesis
    using handleNavigationError_settles[OF assms, of n s routeId]
    by (auto simp: navigate_unknown)
next
  case (Some rt)
  have auth: "requiresAuth rt \<longrightarrow> checkAuthentication E" using assms by simp
  show ?thesis
  proof (cases "executeBeforeNavigationHooks E (rt\<lparr>params := ps, query := qs\<rparr>)")
    case False
    then show ?thesis by (auto simp: navigate_veto[OF Some auth])
  next
    case True
    show ?thesis
    proof (cases "buildQueryString qs")
      case (Inl e)
      then show ?thesis
        using handleNavigationError_settles[OF assms, of n _ routeId]
        by (auto simp: navigate_throw[OF Some auth True])
    next
      case (Inr queryString)
      then show ?thesis
        by (auto simp: navigate_success[OF Some auth True])
    qed
  qed
qed

text \<open>
  C1, as stated, fails: a query whose key is an unpaired surrogate makes
  \<open>encodeURIComponent\<close> throw inside \<open>updateURL\<close>; the error is caught and
  \<open>navigate\<close> returns false although the route is registered and the authorization
  check passes.
\<close>

theorem navigate_unpaired_surrogate_returns_false:
  "routes exampleRouter (js ''accueil'') = Some (exampleRoute ''accueil'') \<and>
   checkAuthentication exampleEnv \<and>
   map_option fst (navigate 2 exampleEnv exampleRouter (js ''accueil'') [] [([0xD800], QTrue)])
     = Some False"
proof -
  have "buildQueryString [([0xD800], QTrue)] = Inl URIError"
    by (simp add: buildQueryString_def uriUnreserved_def isLeadingSurrogate_def
        isTrailingSurrogate_def)
  then have "navigate (Suc (Suc 0)) exampleEnv exampleRouter (js ''accueil'') [] [([0xD800], QTrue)] =
    map_option (Pair False) (handleNavigationError (Suc 0) exampleEnv
      (exampleRouter\<lparr>currentRoute := Some ((exampleRoute ''accueil'')\<lparr>params := [], query := [([0xD800], QTrue)]\<rparr>)\<rparr>)
      (js ''accueil''))"
    by (intro navigate_throw) (simp_all add: example_simps)
  moreover have "defaultRoute (app (exampleRouter\<lparr>currentRoute := c\<rparr>)) = js ''accueil''" for c
    using example_simps(4) by simp
  ultimately show ?thesis
    by (simp add: example_simps handleNavigationError_cases numeral_2_eq_2)
qed

text \<open>
  C1, amended. For a route registered under its own id, when the authorization check
  passes, the pre-navigation hooks do not veto and the query can be serialised by
  \<open>buildQueryString\<close>, \<open>navigate\<close> returns true, and afterwards \<open>getCurrentRoute()\<close> is the
  registered route with the given params and query; its id is the id navigated to.
\<close>

theorem navigate_registered:
  assumes "routes s routeId = Some rt"
    and "route_id rt = routeId"
    and "requiresAuth rt \<longrightarrow> checkAuthentication E"
    and "executeBeforeNavigationHooks E (rt\<lparr>params := ps, query := qs\<rparr>)"
    and "buildQueryString qs = Inr queryString"
  shows "\<exists>s'. navigate (Suc n) E s routeId ps qs = Some (True, s') \<and>
    getCurrentRoute s' = Some (rt\<lparr>params := ps, query := qs\<rparr>) \<and>
    map_option route_id (getCurrentRoute s') = Some routeId"
  using assms(2) by (simp add: navigate_success[OF assms(1,3,4,5)] getCurrentRoute_def)

theorem navigate_registered_witness:
  "\<exists>s'. navigate (Suc 0) exampleEnv exampleRouter (js ''accueil'') [] [(js ''tab'', QTrue)] =
      Some (True, s') \<and>
    getCurrentRoute s' = Some ((exampleRoute ''accueil'')\<lparr>params := [], query := [(js ''tab'', QTrue)]\<rparr>) \<and>
    map_option route_id (getCurrentRoute s') = Some (js ''accueil'')"
proof (rule navigate_registered)
  show "buildQueryString [(js ''tab'', QTrue)] = Inr (js ''?tab'')"
    by (simp add: buildQueryString_def js_simps uriUnreserved_def)
qed (simp_all add: example_simps, simp add: exampleRoute_def)

text \<open>
  C2, as stated, fails: the unknown id raises inside \<open>navigate\<close>, and
  \<open>handleNavigationError\<close> then navigates to the default route. With the default route
  \<open>accueil\<close> registered and \<open>equipes\<close> current, \<open>navigate("unknown-id")\<close> leaves
  \<open>accueil\<close> current.
\<close>

theorem navigate_unknown_moves_to_default:
  "routes exampleRouter (js ''unknown-id'') = None \<and>
   currentRoute exampleRouter = Some (exampleRoute ''equipes'') \<and>
   map_option (currentRoute \<circ> snd) (navigate 2 exampleEnv exampleRouter (js ''unknown-id'') [] [])
     = Some (Some (exampleRoute ''accueil''))"
proof -
  have "js ''unknown-id'' \<noteq> js ''accueil''"
    by (simp add: js_simps)
  moreover have "navigate (Suc 0) exampleEnv exampleRouter (js ''accueil'') [] [] =
      Some (True, exampleRouter\<lparr>currentRoute := Some ((exampleRoute ''accueil'')\<lparr>params := [], query := []\<rparr>),
         locationHash := 0x23 # path (exampleRoute ''accueil'') @ [],
         app := navigateToModule exampleEnv (app exampleRouter) (module (exampleRoute ''accueil''))\<rparr>)"
    by (intro navigate_success) (simp_all add: buildQueryString_Nil example_simps)
  moreover have "(exampleRoute ''accueil'')\<lparr>params := [], query := []\<rparr> = exampleRoute ''accueil''"
    by (simp add: exampleRoute_def)
  moreover have "currentRoute exampleRouter = Some (exampleRoute ''equipes'')"
    by (simp add: exampleRouter_def)
  ultimately show ?thesis
    by (simp add: numeral_2_eq_2 navigate_unknown example_simps handleNavigationError_cases)
qed

text \<open>
  C2, amended. \<open>navigate\<close> with an id absent from the route table returns false, appends
  nothing to the history and leaves the route table as it was. The router is unchanged
  altogether when the id is the default route id or the default route is not registered
  either. Otherwise the fallback navigation runs: when the default route passes the
  authorization check and the hooks, it becomes the current route.
\<close>

theorem navigate_unknown_route:
  assumes "routes s routeId = None"
  shows "(\<forall>m b s'. navigate m E s routeId ps qs = Some (b, s') \<longrightarrow>
            \<not> b \<and> history s' = history s \<and> routes s' = routes s) \<and>
         (routeId = defaultRoute (app s) \<or> routes s (defaultRoute (app s)) = None \<longrightarrow>
            navigate (Suc (Suc n)) E s routeId ps qs = Some (False, s)) \<and>
         (\<forall>rt. routeId \<noteq> defaultRoute (app s) \<and> routes s (defaultRoute (app s)) = Some rt \<and>
               (requiresAuth rt \<longrightarrow> checkAuthentication E) \<and>
               executeBeforeNavigationHooks E (rt\<lparr>params := [], query := []\<rparr>) \<longrightarrow>
            (\<exists>s'. navigate (Suc (Suc n)) E s routeId ps qs = Some (False, s') \<and>
                  currentRoute s' = Some (rt\<lparr>params := [], query := []\<rparr>)))"
proof (intro conjI allI impI)
  fix m b s'
  assume nav: "navigate m E s routeId ps qs = Some (b, s')"
  show "\<not> b"
  proof (cases m)
    case 0
    with nav show ?thesis by simp
  next
    case (Suc k)
    with nav assms show ?thesis by (auto simp: navigate_unknown)
  qed
  show "history s' = history s" "routes s' = routes s"
    using navigate_keeps[OF nav] by simp_all
next
  assume "routeId = defaultRoute (app s) \<or> routes s (defaultRoute (app s)) = None"
  then show "navigate (Suc (Suc n)) E s routeId ps qs = Some (False, s)"
    using assms by (auto simp: navigate_unknown handleNavigationError_cases)
next
  fix rt
  assume a: "routeId \<noteq> defaultRoute (app s) \<and> routes s (defaultRoute (app s)) = Some rt \<and>
    (requiresAuth rt \<longrightarrow> checkAuthentication E) \<and>
    executeBeforeNavigationHooks E (rt\<lparr>params := [], query := []\<rparr>)"
  then have "navigate (Suc n) E s (defaultRoute (app s)) [] [] =
      Some (True, s\<lparr>currentRoute := Some (rt\<lparr>params := [], query := []\<rparr>),
         locationHash := 0x23 # path rt @ [],
         app := navigateToModule E (app s) (module rt)\<rparr>)"
    by (intro navigate_success) (simp_all add: buildQueryString_Nil)
  with a assms
  show "\<exists>s'. navigate (Suc (Suc n)) E s routeId ps qs = Some (False, s') \<and>
      currentRoute s' = Some (rt\<lparr>params := [], query := []\<rparr>)"
    by (simp add: navigate_unknown handleNavigationError_cases)
qed

theorem navigate_unknown_route_witness:
  "(\<exists>s'. navigate 2 exampleEnv exampleRouter (js ''unknown-id'') [] [] = Some (False, s') \<and>
      history s' = history exampleRouter \<and> routes s' = routes exampleRouter \<and>
      currentRoute s' = Some (exampleRoute ''accueil'')) \<and>
   navigate 2 exampleEnv (exampleRouter\<lparr>routes := Map.empty\<rparr>) (js ''unknown-id'') [] [] =
     Some (False, exampleRouter\<lparr>routes := Map.empty\<rparr>)"
proof -
  note keeps = navigate_unknown_route[THEN conjunct1, rule_format]
  note noop = navigate_unknown_route[THEN conjunct2, THEN conjunct1, rule_format]
  note recover = navigate_unknown_route[THEN conjunct2, THEN conjunct2, rule_format]
  have e: "(exampleRoute ''accueil'')\<lparr>params := [], query := []\<rparr> = exampleRoute ''accueil''"
    by (simp add: exampleRoute_def)
  have d: "js ''unknown-id'' \<noteq> js ''accueil''"
    by (simp add: js_simps)
  have "\<exists>s'. navigate (Suc (Suc 0)) exampleEnv exampleRouter (js ''unknown-id'') [] [] = Some (False, s') \<and>
      currentRoute s' = Some ((exampleRoute ''accueil'')\<lparr>params := [], query := []\<rparr>)"
    by (rule recover) (simp_all add: example_simps d)
  then obtain s' where s': "navigate 2 exampleEnv exampleRouter (js ''unknown-id'') [] [] = Some (False, s')"
    "currentRoute s' = Some (exampleRoute ''accueil'')"
    by (auto simp: e numeral_2_eq_2)
  have first: "history s' = history exampleRouter \<and> routes s' = routes exampleRouter"
    using keeps[OF example_simps(3) s'(1)] by simp
  have "navigate (Suc (Suc 0)) exampleEnv (exampleRouter\<lparr>routes := Map.empty\<rparr>) (js ''unknown-id'') [] [] =
     Some (False, exampleRouter\<lparr>routes := Map.empty\<rparr>)"
    by (rule noop) simp_all
  then show ?thesis
    using first s' by (simp add: numeral_2_eq_2)
qed

text \<open>
  C3 does not hold of the code. With \<open>equipes\<close> current and an empty history, the
  navigation to \<open>accueil\<close> succeeds and the history is still empty: no entry for
  \<open>equipes\<close> was appended (see \<open>saveToHistory_current\<close>).
\<close>

theorem navigate_away_appends_nothing:
  "currentRoute exampleRouter = Some (exampleRoute ''equipes'') \<and>
   history exampleRouter = [] \<and>
   map_option (\<lambda>res. (fst res, history (snd res)))
     (navigate 1 exampleEnv exampleRouter (js ''accueil'') [] []) = Some (True, [])"
proof -
  have "navigate (Suc 0) exampleEnv exampleRouter (js ''accueil'') [] [] =
      Some (True, exampleRouter\<lparr>currentRoute := Some ((exampleRoute ''accueil'')\<lparr>params := [], query := []\<rparr>),
         locationHash := 0x23 # path (exampleRoute ''accueil'') @ [],
         app := navigateToModule exampleEnv (app exampleRouter) (module (exampleRoute ''accueil''))\<rparr>)"
    by (intro navigate_success) (simp_all add: buildQueryString_Nil example_simps)
  moreover have "currentRoute exampleRouter = Some (exampleRoute ''equipes'')" "history exampleRouter = []"
    by (simp_all add: exampleRouter_def)
  ultimately show ?thesis
    by simp
qed

text \<open>
  C4. When the pre-navigation hook chain vetoes the navigation to a registered route whose
  authorization check passes, \<open>navigate\<close> returns false and the router is exactly as it
  was before the call: the same current route, the same history, the same route table.
\<close>

theorem navigate_veto_no_mutation:
  assumes "routes s routeId = Some rt"
    and "requiresAuth rt \<longrightarrow> checkAuthentication E"
    and "\<not> executeBeforeNavigationHooks E (rt\<lparr>params := ps, query := qs\<rparr>)"
  shows "navigate (Suc n) E s routeId ps qs = Some (False, s)"
  using assms by (rule navigate_veto)

theorem navigate_veto_no_mutation_witness:
  "navigate (Suc 0) (exampleEnv\<lparr>executeBeforeNavigationHooks := (\<lambda>rt. False)\<rparr>) exampleRouter
     (js ''accueil'') [] [(js ''tab'', QTrue)] = Some (False, exampleRouter)"
  by (rule navigate_veto_no_mutation[where rt = "exampleRoute ''accueil''"])
    (simp_all add: exampleRouter_def exampleRoute_def js_simps)

section \<open>The history\<close>

lemma saveToHistory_bound:
  assumes "length (history s) \<le> maxHistorySize s"
  shows "length (history (saveToHistory E s r)) \<le> maxHistorySize s"
    and "maxHistorySize (saveToHistory E s r) = maxHistorySize s"
    and "routes (saveToHistory E s r) = routes s"
  using assms by (auto simp: saveToHistory_def Let_def split: option.splits)

lemma saveToHistory_push:
  assumes "Some (route_id rt) \<noteq> map_option route_id (currentRoute s)"
  shows "history (saveToHistory E s (Some rt)) =
    (let pushed = history s @ [\<lparr>entry_id = route_id rt, entry_params = params rt,
           entry_query = query rt, timestamp = dateNow E\<rparr>]
     in if maxHistorySize s < length pushed then tl pushed else pushed)"
  using assms by (simp add: saveToHistory_def Let_def)

lemma registerRoute_keeps:
  "registerRoute s routeId cfg = Inr s' \<Longrightarrow>
   history s' = history s \<and> maxHistorySize s' = maxHistorySize s"
  by (auto simp: registerRoute_def Let_def split: if_splits)

lemma goBack_keeps:
  assumes "goBack n E s = Some (b, s')"
  shows "history s' = butlast (history s) \<and> routes s' = routes s \<and>
    maxHistorySize s' = maxHistorySize s \<and> (b \<longleftrightarrow> history s \<noteq> [])"
proof (cases "history s = []")
  case True
  with assms obtain b0 where "navigate n E s (defaultRoute (app s)) [] [] = Some (b0, s')"
    and "\<not> b"
    by (auto simp: goBack_def)
  with True navigate_keeps[OF this(1)] show ?thesis
    by simp
next
  case False
  with assms obtain b0 where "navigate n E (s\<lparr>history := butlast (history s)\<rparr>)
      (entry_id (last (history s))) (entry_params (last (history s)))
      (entry_query (last (history s))) = Some (b0, s')" and "b"
    by (auto simp: goBack_def Let_def)
  with False navigate_keeps[OF this(1)] show ?thesis
    by simp
qed

lemma perform_bound:
  assumes "perform n E s x = Some s'" and "length (history s) \<le> maxHistorySize s"
  shows "length (history s') \<le> maxHistorySize s' \<and> maxHistorySize s' = maxHistorySize s"
proof (cases x)
  case (Navigate routeId ps qs)
  with assms obtain b where "navigate n E s routeId ps qs = Some (b, s')" by auto
  from navigate_keeps[OF this] assms(2) show ?thesis by simp
next
  case GoBack
  with assms obtain b where "goBack n E s = Some (b, s')" by auto
  from goBack_keeps[OF this] assms(2) show ?thesis by simp
next
  case (RegisterRoute routeId cfg)
  with assms show ?thesis
    by (auto split: sum.splits dest: registerRoute_keeps)
next
  case (SaveToHistory r)
  with assms saveToHistory_bound[OF assms(2), of E r] show ?thesis by auto
qed

lemma run_bound:
  "run n E s xs = Some s' \<Longrightarrow> length (history s) \<le> maxHistorySize s \<Longrightarrow>
   length (history s') \<le> maxHistorySize s' \<and> maxHistorySize s' = maxHistorySize s"
proof (induction xs arbitrary: s)
  case Nil
  then show ?case by simp
next
  case (Cons x xs)
  then obtain s1 where s1: "perform n E s x = Some s1" "run n E s1 xs = Some s'"
    by (auto split: option.splits)
  from perform_bound[OF s1(1) Cons.prems(2)] Cons.IH[OF s1(2)] show ?case by simp
qed

lemma goBack_settles:
  assumes "checkAuthentication E"
  shows "\<exists>s'. goBack (Suc (Suc n)) E s = Some (history s \<noteq> [], s')"
proof (cases "history s = []")
  case True
  then show ?thesis
    using navigate_settles[OF assms, of n s "defaultRoute (app s)" "[]" "[]"]
    by (auto simp: goBack_def)
next
  case False
  then show ?thesis
    using navigate_settles[OF assms, of n "s\<lparr>history := butlast (history s)\<rparr>"
        "entry_id (last (history s))" "entry_params (last (history s))"
        "entry_query (last (history s))"]
    by (auto simp: goBack_def Let_def)
qed

lemma perform_settles:
  assumes "checkAuthentication E"
  shows "\<exists>s'. perform (Suc (Suc n)) E s x = Some s'"
proof (cases x)
  case (Navigate routeId ps qs)
  then show ?thesis using navigate_settles[OF assms, of n s routeId ps qs] by auto
next
  case GoBack
  then show ?thesis using goBack_settles[OF assms, of n s] by auto
next
  case (RegisterRoute routeId cfg)
  then show ?thesis by (auto split: sum.splits)
next
  case (SaveToHistory r)
  then show ?thesis by simp
qed

lemma run_settles:
  assumes "checkAuthentication E"
  shows "\<exists>s'. run (Suc (Suc n)) E s xs = Some s'"
proof (induction xs arbitrary: s)
  case Nil
  then show ?case by simp
next
  case (Cons x xs)
  obtain s1 where "perform (Suc (Suc n)) E s x = Some s1"
    using perform_settles[OF assms] by blast
  then show ?case using Cons.IH[of s1] by simp
qed

text \<open>
  C6. After any sequence of calls on a new router (navigations, \<open>goBack\<close>, registrations
  and direct \<open>saveToHistory\<close> calls) the history is no longer than \<open>maxHistorySize\<close>,
  which stays 50; with a passing authorization check every such sequence runs to its end.
  A \<open>saveToHistory\<close> that pushes onto a full history drops the oldest entry and keeps the
  others in order; below the bound it only appends.
\<close>

theorem history_bounded_fifo:
  "(run n E (newRouter a hash) xs = Some s \<longrightarrow>
      length (history s) \<le> maxHistorySize s \<and> maxHistorySize s = 50) \<and>
   (checkAuthentication E \<longrightarrow> run (Suc (Suc m)) E (newRouter a hash) xs \<noteq> None) \<and>
   (Some (route_id rt) \<noteq> map_option route_id (currentRoute t) \<and>
    length (history t) = maxHistorySize t \<and> 0 < maxHistorySize t \<longrightarrow>
      history (saveToHistory E t (Some rt)) =
        tl (history t) @ [\<lparr>entry_id = route_id rt, entry_params = params rt,
           entry_query = query rt, timestamp = dateNow E\<rparr>]) \<and>
   (Some (route_id rt) \<noteq> map_option route_id (currentRoute t) \<and>
    length (history t) < maxHistorySize t \<longrightarrow>
      history (saveToHistory E t (Some rt)) =
        history t @ [\<lparr>entry_id = route_id rt, entry_params = params rt,
           entry_query = query rt, timestamp = dateNow E\<rparr>])"
proof (intro conjI impI)
  assume "run n E (newRouter a hash) xs = Some s"
  from run_bound[OF this]
  show "length (history s) \<le> maxHistorySize s" "maxHistorySize s = 50"
    by (simp_all add: newRouter_def)
next
  assume "checkAuthentication E"
  from run_settles[OF this, of m "newRouter a hash" xs]
  show "run (Suc (Suc m)) E (newRouter a hash) xs \<noteq> None" by auto
next
  assume a: "Some (route_id rt) \<noteq> map_option route_id (currentRoute t) \<and>
    length (history t) = maxHistorySize t \<and> 0 < maxHistorySize t"
  then have "history t \<noteq> []" by auto
  with a show "history (saveToHistory E t (Some rt)) =
        tl (history t) @ [\<lparr>entry_id = route_id rt, entry_params = params rt,
           entry_query = query rt, timestamp = dateNow E\<rparr>]"
    by (simp add: saveToHistory_push Let_def)
next
  assume "Some (route_id rt) \<noteq> map_option route_id (currentRoute t) \<and>
    length (history t) < maxHistorySize t"
  then show "history (saveToHistory E t (Some rt)) =
        history t @ [\<lparr>entry_id = route_id rt, entry_params = params rt,
           entry_query = query rt, timestamp = dateNow E\<rparr>]"
    by (simp add: saveToHistory_push Let_def)
qed

theorem history_bounded_fifo_witness:
  "(\<exists>s. run 2 exampleEnv (newRouter exampleApp []) exampleCalls = Some s \<and>
        length (history s) \<le> 50) \<and>
   history (saveToHistory exampleEnv (exampleRouter\<lparr>history := replicate 50 exampleEntry\<rparr>)
      (Some (exampleRoute ''accueil''))) =
     replicate 49 exampleEntry @
       [\<lparr>entry_id = js ''accueil'', entry_params = [], entry_query = [], timestamp = 1000\<rparr>] \<and>
   history (saveToHistory exampleEnv exampleRouter (Some (exampleRoute ''accueil''))) =
     [\<lparr>entry_id = js ''accueil'', entry_params = [], entry_query = [], timestamp = 1000\<rparr>]"
proof -
  have ids: "Some (route_id (exampleRoute ''accueil'')) \<noteq>
      map_option route_id (currentRoute (exampleRouter\<lparr>history := h\<rparr>))" for h
    by (simp add: exampleRouter_def exampleRoute_def js_simps)
  have ids': "Some (route_id (exampleRoute ''accueil'')) \<noteq>
      map_option route_id (currentRoute exampleRouter)"
    by (simp add: exampleRouter_def exampleRoute_def js_simps)
  have mx: "maxHistorySize exampleRouter = 50" "history exampleRouter = []"
    by (simp_all add: exampleRouter_def)
  have fields: "route_id (exampleRoute ''accueil'') = js ''accueil''"
    "params (exampleRoute ''accueil'') = []" "query (exampleRoute ''accueil'') = []"
    "dateNow exampleEnv = 1000"
    by (simp_all add: exampleRoute_def exampleEnv_def)
  note bound = history_bounded_fifo[THEN conjunct1, rule_format]
  note settles = history_bounded_fifo[THEN conjunct2, THEN conjunct1, rule_format]
  note evict = history_bounded_fifo[THEN conjunct2, THEN conjunct2, THEN conjunct1, rule_format]
  note push = history_bounded_fifo[THEN conjunct2, THEN conjunct2, THEN conjunct2, rule_format]
  have "run (Suc (Suc 0)) exampleEnv (newRouter exampleApp []) exampleCalls \<noteq> None"
    by (rule settles) (simp add: example_simps)
  then obtain s where s: "run 2 exampleEnv (newRouter exampleApp []) exampleCalls = Some s"
    by (auto simp: numeral_2_eq_2)
  have first: "\<exists>s. run 2 exampleEnv (newRouter exampleApp []) exampleCalls = Some s \<and>
        length (history s) \<le> 50"
    using bound[OF s] s by simp
  have second: "history (saveToHistory exampleEnv (exampleRouter\<lparr>history := replicate 50 exampleEntry\<rparr>)
      (Some (exampleRoute ''accueil''))) =
     replicate 49 exampleEntry @
       [\<lparr>entry_id = js ''accueil'', entry_params = [], entry_query = [], timestamp = 1000\<rparr>]"
    using evict[of "exampleRoute ''accueil''" "exampleRouter\<lparr>history := replicate 50 exampleEntry\<rparr>"
        exampleEnv] ids
    by (simp add: mx fields)
  have third: "history (saveToHistory exampleEnv exampleRouter (Some (exampleRoute ''accueil''))) =
     [\<lparr>entry_id = js ''accueil'', entry_params = [], entry_query = [], timestamp = 1000\<rparr>]"
    using push[of "exampleRoute ''accueil''" exampleRouter exampleEnv] ids'
    by (simp add: mx fields)
  show ?thesis using first second third by blast
qed

lemma defaultRoute_configured:
  "menuConfig a = Some c \<Longrightarrow> defaultModule c = Some d \<Longrightarrow> d \<noteq> [] \<Longrightarrow> defaultRoute a = d"
  by (simp add: defaultRoute_def orElse_def)

lemma defaultRoute_unconfigured:
  "menuConfig a = None \<or>
     (\<exists>c. menuConfig a = Some c \<and> (defaultModule c = None \<or> defaultModule c = Some [])) \<Longrightarrow>
   defaultRoute a = js ''accueil''"
  by (auto simp: defaultRoute_def orElse_def)

text \<open>
  C7. With a non-empty history \<open>goBack\<close> removes the most recent entry and navigates to
  its id with its saved params and query, and returns true: when that id is registered
  and the navigation goes through, the entry's route, with the saved params and query, is
  the current route afterwards and the entry is gone from the history. With an empty
  history it navigates to the default route id and returns false: the route of
  \<open>settings.defaultModule\<close> when the configuration names one, the route \<open>accueil\<close>
  otherwise, is the current route afterwards. Whenever it returns, the result is true
  exactly when the history was not empty, and with a passing authorization check it does
  return.
\<close>

theorem goBack_pops_or_defaults:
  "(history s \<noteq> [] \<longrightarrow>
      goBack n E s =
        map_option (\<lambda>res. (True, snd res))
          (navigate n E (s\<lparr>history := butlast (history s)\<rparr>) (entry_id (last (history s)))
             (entry_params (last (history s))) (entry_query (last (history s))))) \<and>
   (history s = [] \<longrightarrow>
      goBack n E s =
        map_option (\<lambda>res. (False, snd res)) (navigate n E s (defaultRoute (app s)) [] [])) \<and>
   (\<forall>b s'. goBack n E s = Some (b, s') \<longrightarrow>
      (b \<longleftrightarrow> history s \<noteq> []) \<and> history s' = butlast (history s)) \<and>
   (checkAuthentication E \<longrightarrow> (\<exists>s'. goBack (Suc (Suc n)) E s = Some (history s \<noteq> [], s'))) \<and>
   (\<forall>rt queryString.
      history s \<noteq> [] \<and> routes s (entry_id (last (history s))) = Some rt \<and>
      (requiresAuth rt \<longrightarrow> checkAuthentication E) \<and>
      executeBeforeNavigationHooks E
        (rt\<lparr>params := entry_params (last (history s)), query := entry_query (last (history s))\<rparr>) \<and>
      buildQueryString (entry_query (last (history s))) = Inr queryString \<longrightarrow>
      goBack (Suc n) E s =
        Some (True,
          s\<lparr>history := butlast (history s),
            currentRoute := Some (rt\<lparr>params := entry_params (last (history s)),
              query := entry_query (last (history s))\<rparr>),
            locationHash := 0x23 # path rt @ queryString,
            app := navigateToModule E (app s) (module rt)\<rparr>)) \<and>
   (\<forall>c d rt.
      history s = [] \<and> menuConfig (app s) = Some c \<and> defaultModule c = Some d \<and> d \<noteq> [] \<and>
      routes s d = Some rt \<and> (requiresAuth rt \<longrightarrow> checkAuthentication E) \<and>
      executeBeforeNavigationHooks E (rt\<lparr>params := [], query := []\<rparr>) \<longrightarrow>
      goBack (Suc n) E s =
        Some (False,
          s\<lparr>currentRoute := Some (rt\<lparr>params := [], query := []\<rparr>),
            locationHash := 0x23 # path rt,
            app := navigateToModule E (app s) (module rt)\<rparr>)) \<and>
   (\<forall>rt.
      history s = [] \<and>
      (menuConfig (app s) = None \<or>
       (\<exists>c. menuConfig (app s) = Some c \<and>
          (defaultModule c = None \<or> defaultModule c = Some []))) \<and>
      routes s (js ''accueil'') = Some rt \<and> (requiresAuth rt \<longrightarrow> checkAuthentication E) \<and>
      executeBeforeNavigationHooks E (rt\<lparr>params := [], query := []\<rparr>) \<longrightarrow>
      goBack (Suc n) E s =
        Some (False,
          s\<lparr>currentRoute := Some (rt\<lparr>params := [], query := []\<rparr>),
            locationHash := 0x23 # path rt,
            app := navigateToModule E (app s) (module rt)\<rparr>))"
proof (intro conjI allI impI)
  fix b s'
  assume g: "goBack n E s = Some (b, s')"
  from goBack_keeps[OF g] show "b \<longleftrightarrow> history s \<noteq> []" "history s' = butlast (history s)"
    by simp_all
next
  assume "checkAuthentication E"
  then show "\<exists>s'. goBack (Suc (Suc n)) E s = Some (history s \<noteq> [], s')"
    by (rule goBack_settles)
next
  fix rt queryString
  let ?e = "last (history s)"
  assume a: "history s \<noteq> [] \<and> routes s (entry_id ?e) = Some rt \<and>
      (requiresAuth rt \<longrightarrow> checkAuthentication E) \<and>
      executeBeforeNavigationHooks E (rt\<lparr>params := entry_params ?e, query := entry_query ?e\<rparr>) \<and>
      buildQueryString (entry_query ?e) = Inr queryString"
  then have "navigate (Suc n) E (s\<lparr>history := butlast (history s)\<rparr>) (entry_id ?e)
      (entry_params ?e) (entry_query ?e) =
    Some (True,
      s\<lparr>history := butlast (history s)\<rparr>
       \<lparr>currentRoute := Some (rt\<lparr>params := entry_params ?e, query := entry_query ?e\<rparr>),
        locationHash := 0x23 # path rt @ queryString,
        app := navigateToModule E (app (s\<lparr>history := butlast (history s)\<rparr>)) (module rt)\<rparr>)"
    by (intro navigate_success) simp_all
  with a show "goBack (Suc n) E s =
        Some (True,
          s\<lparr>history := butlast (history s),
            currentRoute := Some (rt\<lparr>params := entry_params ?e, query := entry_query ?e\<rparr>),
            locationHash := 0x23 # path rt @ queryString,
            app := navigateToModule E (app s) (module rt)\<rparr>)"
    by (simp add: goBack_def Let_def)
next
  fix c d rt
  assume a: "history s = [] \<and> menuConfig (app s) = Some c \<and> defaultModule c = Some d \<and> d \<noteq> [] \<and>
      routes s d = Some rt \<and> (requiresAuth rt \<longrightarrow> checkAuthentication E) \<and>
      executeBeforeNavigationHooks E (rt\<lparr>params := [], query := []\<rparr>)"
  then have d: "defaultRoute (app s) = d"
    by (intro defaultRoute_configured[of "app s" c d]) simp_all
  from a have "navigate (Suc n) E s d [] [] =
    Some (True,
      s\<lparr>currentRoute := Some (rt\<lparr>params := [], query := []\<rparr>),
        locationHash := 0x23 # path rt @ [],
        app := navigateToModule E (app s) (module rt)\<rparr>)"
    by (intro navigate_success) (simp_all add: buildQueryString_Nil)
  with a d show "goBack (Suc n) E s =
        Some (False,
          s\<lparr>currentRoute := Some (rt\<lparr>params := [], query := []\<rparr>),
            locationHash := 0x23 # path rt,
            app := navigateToModule E (app s) (module rt)\<rparr>)"
    by (simp add: goBack_def)
next
  fix rt
  assume a: "history s = [] \<and>
      (menuConfig (app s) = None \<or>
       (\<exists>c. menuConfig (app s) = Some c \<and>
          (defaultModule c = None \<or> defaultModule c = Some []))) \<and>
      routes s (js ''accueil'') = Some rt \<and> (requiresAuth rt \<longrightarrow> checkAuthentication E) \<and>
      executeBeforeNavigationHooks E (rt\<lparr>params := [], query := []\<rparr>)"
  then have d: "defaultRoute (app s) = js ''accueil''"
    by (intro defaultRoute_unconfigured) simp
  from a have "navigate (Suc n) E s (js ''accueil'') [] [] =
    Some (True,
      s\<lparr>currentRoute := Some (rt\<lparr>params := [], query := []\<rparr>),
        locationHash := 0x23 # path rt @ [],
        app := navigateToModule E (app s) (module rt)\<rparr>)"
    by (intro navigate_success) (simp_all add: buildQueryString_Nil)
  with a d show "goBack (Suc n) E s =
        Some (False,
          s\<lparr>currentRoute := Some (rt\<lparr>params := [], query := []\<rparr>),
            locationHash := 0x23 # path rt,
            app := navigateToModule E (app s) (module rt)\<rparr>)"
    by (simp add: goBack_def)
qed (simp_all add: goBack_def Let_def)

theorem goBack_pops_or_defaults_witness:
  "goBack 2 exampleEnv (exampleRouter\<lparr>history := [exampleEntry]\<rparr>) =
     map_option (\<lambda>res. (True, snd res))
       (navigate 2 exampleEnv (exampleRouter\<lparr>history := []\<rparr>) (js ''accueil'') []
          [(js ''tab'', QTrue)]) \<and>
   (\<exists>s'. goBack 2 exampleEnv (exampleRouter\<lparr>history := [exampleEntry]\<rparr>) = Some (True, s') \<and>
      history s' = []) \<and>
   goBack 2 exampleEnv exampleRouter =
     map_option (\<lambda>res. (False, snd res)) (navigate 2 exampleEnv exampleRouter (js ''accueil'') [] []) \<and>
   (\<exists>s'. goBack 2 exampleEnv exampleRouter = Some (False, s') \<and> history s' = []) \<and>
   (\<exists>s'. goBack 1 exampleEnv (configuredRouter\<lparr>history := [exampleEntry]\<rparr>) = Some (True, s') \<and>
      currentRoute s' = Some ((exampleRoute ''accueil'')\<lparr>query := [(js ''tab'', QTrue)]\<rparr>) \<and>
      history s' = [] \<and> locationHash s' = js ''#accueil?tab'') \<and>
   (\<exists>s'. goBack 1 exampleEnv (configuredRouter\<lparr>currentRoute := Some (exampleRoute ''accueil'')\<rparr>) =
        Some (False, s') \<and>
      currentRoute s' = Some (exampleRoute ''equipes'') \<and> locationHash s' = js ''#equipes'') \<and>
   (\<exists>s'. goBack 1 exampleEnv (exampleRouter\<lparr>app := exampleApp\<lparr>menuConfig := None\<rparr>\<rparr>) =
        Some (False, s') \<and>
      currentRoute s' = Some (exampleRoute ''accueil'') \<and> locationHash s' = js ''#accueil'')"
proof -
  note pop = goBack_pops_or_defaults[THEN conjunct1, rule_format]
  note dflt = goBack_pops_or_defaults[THEN conjunct2, THEN conjunct1, rule_format]
  note res = goBack_pops_or_defaults[THEN conjunct2, THEN conjunct2, THEN conjunct1, rule_format]
  note settles = goBack_pops_or_defaults[THEN conjunct2, THEN conjunct2, THEN conjunct2,
      THEN conjunct1, rule_format]
  note popped = goBack_pops_or_defaults[THEN conjunct2, THEN conjunct2, THEN conjunct2,
      THEN conjunct2, THEN conjunct1, rule_format]
  note configured = goBack_pops_or_defaults[THEN conjunct2, THEN conjunct2, THEN conjunct2,
      THEN conjunct2, THEN conjunct2, THEN conjunct1, rule_format]
  note fallback = goBack_pops_or_defaults[THEN conjunct2, THEN conjunct2, THEN conjunct2,
      THEN conjunct2, THEN conjunct2, THEN conjunct2, rule_format]
  have h: "history exampleRouter = []"
    by (simp add: exampleRouter_def)
  have 1: "goBack 2 exampleEnv (exampleRouter\<lparr>history := [exampleEntry]\<rparr>) =
     map_option (\<lambda>res. (True, snd res))
       (navigate 2 exampleEnv (exampleRouter\<lparr>history := []\<rparr>) (js ''accueil'') []
          [(js ''tab'', QTrue)])"
    using pop[of "exampleRouter\<lparr>history := [exampleEntry]\<rparr>" 2 exampleEnv]
    by (simp add: exampleEntry_def)
  obtain s1 where s1: "goBack (Suc (Suc 0)) exampleEnv (exampleRouter\<lparr>history := [exampleEntry]\<rparr>) =
      Some (history (exampleRouter\<lparr>history := [exampleEntry]\<rparr>) \<noteq> [], s1)"
    using settles[of exampleEnv 0 "exampleRouter\<lparr>history := [exampleEntry]\<rparr>"] example_simps(6)
    by blast
  then have 2: "\<exists>s'. goBack 2 exampleEnv (exampleRouter\<lparr>history := [exampleEntry]\<rparr>) = Some (True, s') \<and>
      history s' = []"
    using res[OF s1] by (simp add: numeral_2_eq_2)
  have 3: "goBack 2 exampleEnv exampleRouter =
     map_option (\<lambda>res. (False, snd res)) (navigate 2 exampleEnv exampleRouter (js ''accueil'') [] [])"
    using dflt[of exampleRouter 2 exampleEnv] h by (simp add: example_simps)
  obtain s2 where s2: "goBack (Suc (Suc 0)) exampleEnv exampleRouter =
      Some (history exampleRouter \<noteq> [], s2)"
    using settles[of exampleEnv 0 exampleRouter] example_simps(6) by blast
  then have 4: "\<exists>s'. goBack 2 exampleEnv exampleRouter = Some (False, s') \<and> history s' = []"
    using res[OF s2] h by (simp add: numeral_2_eq_2)
  have q: "buildQueryString [(js ''tab'', QTrue)] = Inr (js ''?tab'')"
    by (simp add: buildQueryString_def js_simps uriUnreserved_def)
  have "goBack (Suc 0) exampleEnv (configuredRouter\<lparr>history := [exampleEntry]\<rparr>) =
      Some (True,
        (configuredRouter\<lparr>history := [exampleEntry]\<rparr>)
          \<lparr>history := butlast (history (configuredRouter\<lparr>history := [exampleEntry]\<rparr>)),
           currentRoute := Some ((exampleRoute ''accueil'')
             \<lparr>params := entry_params (last (history (configuredRouter\<lparr>history := [exampleEntry]\<rparr>))),
              query := entry_query (last (history (configuredRouter\<lparr>history := [exampleEntry]\<rparr>)))\<rparr>),
           locationHash := 0x23 # path (exampleRoute ''accueil'') @ js ''?tab'',
           app := navigateToModule exampleEnv (app (configuredRouter\<lparr>history := [exampleEntry]\<rparr>))
             (module (exampleRoute ''accueil''))\<rparr>)"
  proof (rule popped, intro conjI)
    show "routes (configuredRouter\<lparr>history := [exampleEntry]\<rparr>)
        (entry_id (last (history (configuredRouter\<lparr>history := [exampleEntry]\<rparr>)))) =
        Some (exampleRoute ''accueil'')"
      by (simp add: configuredRouter_def exampleRouter_def exampleEntry_def js_simps)
    show "buildQueryString
        (entry_query (last (history (configuredRouter\<lparr>history := [exampleEntry]\<rparr>)))) =
        Inr (js ''?tab'')"
      using q by (simp add: exampleEntry_def)
  qed (simp_all add: example_simps)
  then have 5: "\<exists>s'. goBack 1 exampleEnv (configuredRouter\<lparr>history := [exampleEntry]\<rparr>) = Some (True, s') \<and>
      currentRoute s' = Some ((exampleRoute ''accueil'')\<lparr>query := [(js ''tab'', QTrue)]\<rparr>) \<and>
      history s' = [] \<and> locationHash s' = js ''#accueil?tab''"
    by (simp add: exampleEntry_def exampleRoute_def js_simps)
  have "goBack (Suc 0) exampleEnv (configuredRouter\<lparr>currentRoute := Some (exampleRoute ''accueil'')\<rparr>) =
      Some (False,
        (configuredRouter\<lparr>currentRoute := Some (exampleRoute ''accueil'')\<rparr>)
          \<lparr>currentRoute := Some ((exampleRoute ''equipes'')\<lparr>params := [], query := []\<rparr>),
           locationHash := 0x23 # path (exampleRoute ''equipes''),
           app := navigateToModule exampleEnv
             (app (configuredRouter\<lparr>currentRoute := Some (exampleRoute ''accueil'')\<rparr>))
             (module (exampleRoute ''equipes''))\<rparr>)"
  proof (rule configured, intro conjI)
    show "menuConfig (app (configuredRouter\<lparr>currentRoute := Some (exampleRoute ''accueil'')\<rparr>)) =
        Some \<lparr>menuItems =
               [\<lparr>item_module = js ''accueil'', item_label = js ''Accueil''\<rparr>,
                \<lparr>item_module = js ''equipes'', item_label = js ''Equipes''\<rparr>],
             defaultModule = Some (js ''equipes''),
             applicationTitle = Some (js ''Gestion sportive'')\<rparr>"
      by (simp add: configuredRouter_def)
    show "routes (configuredRouter\<lparr>currentRoute := Some (exampleRoute ''accueil'')\<rparr>) (js ''equipes'') =
        Some (exampleRoute ''equipes'')"
      by (simp add: configuredRouter_def exampleRouter_def js_simps)
    show "history (configuredRouter\<lparr>currentRoute := Some (exampleRoute ''accueil'')\<rparr>) = []"
      by (simp add: configuredRouter_def exampleRouter_def)
  qed (simp_all add: example_simps js_simps)
  then have 6: "\<exists>s'. goBack 1 exampleEnv (configuredRouter\<lparr>currentRoute := Some (exampleRoute ''accueil'')\<rparr>) =
        Some (False, s') \<and>
      currentRoute s' = Some (exampleRoute ''equipes'') \<and> locationHash s' = js ''#equipes''"
    by (simp add: exampleRoute_def js_simps)
  have "goBack (Suc 0) exampleEnv (exampleRouter\<lparr>app := exampleApp\<lparr>menuConfig := None\<rparr>\<rparr>) =
      Some (False,
        (exampleRouter\<lparr>app := exampleApp\<lparr>menuConfig := None\<rparr>\<rparr>)
          \<lparr>currentRoute := Some ((exampleRoute ''accueil'')\<lparr>params := [], query := []\<rparr>),
           locationHash := 0x23 # path (exampleRoute ''accueil''),
           app := navigateToModule exampleEnv
             (app (exampleRouter\<lparr>app := exampleApp\<lparr>menuConfig := None\<rparr>\<rparr>))
             (module (exampleRoute ''accueil''))\<rparr>)"
    by (rule fallback) (simp add: h example_simps)
  then have 7: "\<exists>s'. goBack 1 exampleEnv (exampleRouter\<lparr>app := exampleApp\<lparr>menuConfig := None\<rparr>\<rparr>) =
        Some (False, s') \<and>
      currentRoute s' = Some (exampleRoute ''accueil'') \<and> locationHash s' = js ''#accueil''"
    by (simp add: exampleRoute_def js_simps)
  show ?thesis using 1 2 3 4 5 6 7 by blast
qed

section \<open>Route registration\<close>

lemma strip_one_marker:
  "take 2 p \<noteq> [0x23, 0x23] \<Longrightarrow> take 1 (if take 1 p = [0x23] then drop 1 p else p) \<noteq> [0x23::nat]"
proof (cases p)
  case Nil
  then show ?thesis by simp
next
  case (Cons x q)
  assume a: "take 2 p \<noteq> [0x23, 0x23]"
  show ?thesis
  proof (cases q)
    case Nil
    with Cons show ?thesis by simp
  next
    case (Cons y r)
    with \<open>p = x # q\<close> a show ?thesis by (auto simp: numeral_2_eq_2)
  qed
qed

lemma registerRoute_result:
  "registerRoute s routeId cfg = Inr s' \<Longrightarrow>
   \<exists>rt. s' = s\<lparr>routes := (routes s)(routeId \<mapsto> rt)\<rparr> \<and> route_id rt = routeId \<and>
     path rt = (let p = orElse (config_path cfg) routeId
                in if take 1 p = [0x23] then drop 1 p else p)"
  by (auto simp: registerRoute_def Let_def split: if_splits)

abbreviation unmarked :: "router \<Rightarrow> bool" where
  "unmarked s \<equiv> (\<forall>k rt. routes s k = Some rt \<longrightarrow> take 1 (path rt) \<noteq> [0x23])"

lemma goBack_routes:
  assumes "goBack n E s = Some (b, s')"
  shows "routes s' = routes s"
proof (cases "history s = []")
  case True
  with assms obtain b0 where "navigate n E s (defaultRoute (app s)) [] [] = Some (b0, s')"
    by (auto simp: goBack_def)
  from navigate_keeps[OF this] show ?thesis by simp
next
  case False
  with assms obtain b0 where "navigate n E (s\<lparr>history := butlast (history s)\<rparr>)
      (entry_id (last (history s))) (entry_params (last (history s)))
      (entry_query (last (history s))) = Some (b0, s')"
    by (auto simp: goBack_def Let_def)
  from navigate_keeps[OF this] show ?thesis by simp
qed

lemma saveToHistory_routes: "routes (saveToHistory E s r) = routes s"
  by (simp add: saveToHistory_def Let_def split: option.splits)

lemma perform_unmarked:
  assumes "perform n E s x = Some s'" and "unmarked s"
    and "\<forall>routeId cfg. x = RegisterRoute routeId cfg \<longrightarrow>
      take 2 (orElse (config_path cfg) routeId) \<noteq> [0x23, 0x23]"
  shows "unmarked s'"
proof (cases x)
  case (Navigate routeId ps qs)
  with assms obtain b where "navigate n E s routeId ps qs = Some (b, s')" by auto
  from navigate_keeps[OF this] assms(2) show ?thesis by simp
next
  case GoBack
  with assms obtain b where "goBack n E s = Some (b, s')" by auto
  from goBack_routes[OF this] assms(2) show ?thesis by simp
next
  case (RegisterRoute routeId cfg)
  show ?thesis
  proof (cases "registerRoute s routeId cfg")
    case (Inl e)
    with RegisterRoute assms show ?thesis by simp
  next
    case (Inr t)
    with RegisterRoute assms have t: "t = s'" by simp
    from registerRoute_result[OF Inr] obtain rt
      where rt: "s' = s\<lparr>routes := (routes s)(routeId \<mapsto> rt)\<rparr>"
        "path rt = (let p = orElse (config_path cfg) routeId
                in if take 1 p = [0x23] then drop 1 p else p)"
      unfolding t by blast
    have "take 1 (path rt) \<noteq> [0x23]"
      unfolding rt(2) Let_def
      using assms(3) RegisterRoute by (intro strip_one_marker) simp
    with assms(2) show ?thesis
      by (subst rt(1)) (auto split: if_splits)
  qed
next
  case (SaveToHistory r)
  with assms show ?thesis
    by (auto simp: saveToHistory_routes)
qed

lemma run_unmarked:
  "run n E s xs = Some s' \<Longrightarrow> unmarked s \<Longrightarrow>
   \<forall>routeId cfg. RegisterRoute routeId cfg \<in> set xs \<longrightarrow>
      take 2 (orElse (config_path cfg) routeId) \<noteq> [0x23, 0x23] \<Longrightarrow>
   unmarked s'"
proof (induction xs arbitrary: s)
  case Nil
  then show ?case by simp
next
  case (Cons x xs)
  then obtain s1 where s1: "perform n E s x = Some s1" "run n E s1 xs = Some s'"
    by (auto split: option.splits)
  have "unmarked s1"
    using s1(1) Cons.prems(2,3) by (intro perform_unmarked[of n E s x s1]) auto
  then show ?case
    using Cons.IH[OF s1(2)] Cons.prems(3) by auto
qed


lemma registerRoute_succeeds:
  "config_module cfg = Some m \<Longrightarrow> m \<noteq> [] \<Longrightarrow>
   registerRoute s routeId cfg =
     Inr (s\<lparr>routes := (routes s)(routeId \<mapsto>
       \<lparr>route_id = routeId,
        path = (let p = orElse (config_path cfg) routeId
                in if take 1 p = [0x23] then drop 1 p else p),
        module = m,
        title = orElse (config_title cfg) routeId,
        description = orElse (config_description cfg) [],
        icon = orElse (config_icon cfg) (js ''fas fa-page''),
        requiresAuth = (config_requiresAuth cfg = Some True),
        params = [], query = []\<rparr>)\<rparr>)"
  by (simp add: registerRoute_def Let_def orElse_def)

text \<open>
  C9, as stated, fails: \<open>registerRoute\<close> strips one leading \<open>#\<close> only, so the path
  \<open>##stats\<close> is stored as \<open>#stats\<close>, which still starts with the marker.
\<close>

theorem registerRoute_keeps_second_marker:
  "registerRoute (newRouter exampleApp []) (js ''stats'') (exampleConfig ''##stats'' ''stats'') =
     Inr ((newRouter exampleApp [])
       \<lparr>routes := [js ''stats'' \<mapsto> (exampleRoute ''stats'')\<lparr>path := js ''#stats''\<rparr>]\<rparr>) \<and>
   take 1 (js ''#stats'') = [0x23]"
  by (simp add: registerRoute_def exampleConfig_def exampleRoute_def newRouter_def orElse_def
      js_simps Let_def)


text \<open>
  C9, amended. \<open>registerRoute\<close> fails when \<open>config.module\<close> is absent (or empty);
  otherwise it succeeds and stores, under the route id, a route whose path is
  \<open>config.path\<close> (the route id when the path is absent or empty) with one leading \<open>#\<close>
  removed. After any sequence of calls on a new
  router in which no registered path starts with two markers, no stored route has a path
  with a leading \<open>#\<close>.
\<close>

theorem registerRoute_strips_one_marker:
  "(config_module cfg = None \<longrightarrow>
      registerRoute s routeId cfg =
        Inl (Error (js ''Configuration de route invalide pour: '' @ routeId))) \<and>
   (\<forall>s'. registerRoute s routeId cfg = Inr s' \<longrightarrow>
      (\<exists>rt. s' = s\<lparr>routes := (routes s)(routeId \<mapsto> rt)\<rparr> \<and> route_id rt = routeId \<and>
         path rt = (let p = orElse (config_path cfg) routeId
                    in if take 1 p = [0x23] then drop 1 p else p))) \<and>
   (run n E (newRouter a hash) xs = Some t \<and>
    (\<forall>k c. RegisterRoute k c \<in> set xs \<longrightarrow> take 2 (orElse (config_path c) k) \<noteq> [0x23, 0x23]) \<longrightarrow>
      (\<forall>k rt. routes t k = Some rt \<longrightarrow> take 1 (path rt) \<noteq> [0x23])) \<and>
   (\<forall>m. config_module cfg = Some m \<and> m \<noteq> [] \<longrightarrow>
      registerRoute s routeId cfg =
        Inr (s\<lparr>routes := (routes s)(routeId \<mapsto>
          \<lparr>route_id = routeId,
           path = (let p = orElse (config_path cfg) routeId
                   in if take 1 p = [0x23] then drop 1 p else p),
           module = m,
           title = orElse (config_title cfg) routeId,
           description = orElse (config_description cfg) [],
           icon = orElse (config_icon cfg) (js ''fas fa-page''),
           requiresAuth = (config_requiresAuth cfg = Some True),
           params = [], query = []\<rparr>)\<rparr>)) \<and>
   (config_module cfg = Some [] \<longrightarrow>
      registerRoute s routeId cfg =
        Inl (Error (js ''Configuration de route invalide pour: '' @ routeId)))"
proof (intro conjI allI impI)
  assume "config_module cfg = None"
  then show "registerRoute s routeId cfg =
      Inl (Error (js ''Configuration de route invalide pour: '' @ routeId))"
    by (simp add: registerRoute_def)
next
  fix s'
  assume "registerRoute s routeId cfg = Inr s'"
  then show "\<exists>rt. s' = s\<lparr>routes := (routes s)(routeId \<mapsto> rt)\<rparr> \<and> route_id rt = routeId \<and>
         path rt = (let p = orElse (config_path cfg) routeId
                    in if take 1 p = [0x23] then drop 1 p else p)"
    by (rule registerRoute_result)
next
  fix k rt
  assume a: "run n E (newRouter a hash) xs = Some t \<and>
    (\<forall>k c. RegisterRoute k c \<in> set xs \<longrightarrow> take 2 (orElse (config_path c) k) \<noteq> [0x23, 0x23])"
    and r: "routes t k = Some rt"
  have "unmarked (newRouter a hash)"
    by (simp add: newRouter_def)
  with a have "unmarked t"
    by (intro run_unmarked[of n E "newRouter a hash" xs t]) auto
  with r show "take 1 (path rt) \<noteq> [0x23]"
    by auto
next
  fix m
  assume "config_module cfg = Some m \<and> m \<noteq> []"
  then show "registerRoute s routeId cfg =
        Inr (s\<lparr>routes := (routes s)(routeId \<mapsto>
          \<lparr>route_id = routeId,
           path = (let p = orElse (config_path cfg) routeId
                   in if take 1 p = [0x23] then drop 1 p else p),
           module = m,
           title = orElse (config_title cfg) routeId,
           description = orElse (config_description cfg) [],
           icon = orElse (config_icon cfg) (js ''fas fa-page''),
           requiresAuth = (config_requiresAuth cfg = Some True),
           params = [], query = []\<rparr>)\<rparr>)"
    by (intro registerRoute_succeeds) simp_all
next
  assume "config_module cfg = Some []"
  then show "registerRoute s routeId cfg =
      Inl (Error (js ''Configuration de route invalide pour: '' @ routeId))"
    by (simp add: registerRoute_def)
qed

theorem registerRoute_strips_one_marker_witness:
  "registerRoute exampleRouter (js ''stats'')
      ((exampleConfig ''#stats'' ''stats'')\<lparr>config_module := None\<rparr>) =
     Inl (Error (js ''Configuration de route invalide pour: stats'')) \<and>
   (\<exists>rt. registerRoute exampleRouter (js ''stats'') (exampleConfig ''#stats'' ''stats'') =
        Inr (exampleRouter\<lparr>routes := (routes exampleRouter)(js ''stats'' \<mapsto> rt)\<rparr>) \<and>
      route_id rt = js ''stats'' \<and> path rt = js ''stats'') \<and>
   (\<exists>t rt. run 0 exampleEnv (newRouter exampleApp [])
        [RegisterRoute (js ''accueil'') (exampleConfig ''#accueil'' ''accueil'')] = Some t \<and>
      routes t (js ''accueil'') = Some rt \<and> take 1 (path rt) \<noteq> [0x23]) \<and>
   registerRoute exampleRouter (js ''stats'') (exampleConfig ''#stats'' ''stats'') =
     Inr (exampleRouter\<lparr>routes := (routes exampleRouter)(js ''stats'' \<mapsto> exampleRoute ''stats'')\<rparr>) \<and>
   registerRoute exampleRouter (js ''stats'')
      ((exampleConfig ''#stats'' ''stats'')\<lparr>config_module := Some []\<rparr>) =
     Inl (Error (js ''Configuration de route invalide pour: stats''))"
proof -
  note fails = registerRoute_strips_one_marker[THEN conjunct1, rule_format]
  note stores = registerRoute_strips_one_marker[THEN conjunct2, THEN conjunct1, rule_format]
  note inv = registerRoute_strips_one_marker[THEN conjunct2, THEN conjunct2, THEN conjunct1,
      rule_format]
  note succeeds = registerRoute_strips_one_marker[THEN conjunct2, THEN conjunct2,
      THEN conjunct2, THEN conjunct1, rule_format]
  note empty = registerRoute_strips_one_marker[THEN conjunct2, THEN conjunct2,
      THEN conjunct2, THEN conjunct2, rule_format]
  have 1: "registerRoute exampleRouter (js ''stats'')
      ((exampleConfig ''#stats'' ''stats'')\<lparr>config_module := None\<rparr>) =
     Inl (Error (js ''Configuration de route invalide pour: stats''))"
    using fails[of "(exampleConfig ''#stats'' ''stats'')\<lparr>config_module := None\<rparr>" exampleRouter
        "js ''stats''"]
    by (simp add: js_simps)
  have 4: "registerRoute exampleRouter (js ''stats'') (exampleConfig ''#stats'' ''stats'') =
     Inr (exampleRouter\<lparr>routes := (routes exampleRouter)(js ''stats'' \<mapsto> exampleRoute ''stats'')\<rparr>)"
    using succeeds[of "exampleConfig ''#stats'' ''stats''" "js ''stats''" exampleRouter "js ''stats''"]
    by (simp add: exampleConfig_def exampleRoute_def orElse_def js_simps Let_def)
  from stores[OF 4] have 2: "\<exists>rt. registerRoute exampleRouter (js ''stats'') (exampleConfig ''#stats'' ''stats'') =
        Inr (exampleRouter\<lparr>routes := (routes exampleRouter)(js ''stats'' \<mapsto> rt)\<rparr>) \<and>
      route_id rt = js ''stats'' \<and> path rt = js ''stats''"
    using 4 by (auto simp: exampleRoute_def)
  obtain t where t: "registerRoute (newRouter exampleApp []) (js ''accueil'')
      (exampleConfig ''#accueil'' ''accueil'') = Inr t"
    using succeeds[of "exampleConfig ''#accueil'' ''accueil''" "js ''accueil''"
        "newRouter exampleApp []" "js ''accueil''"]
    by (simp add: exampleConfig_def js_simps)
  then have r: "run 0 exampleEnv (newRouter exampleApp [])
        [RegisterRoute (js ''accueil'') (exampleConfig ''#accueil'' ''accueil'')] = Some t"
    by simp
  from stores[OF t] obtain rt where rt: "routes t (js ''accueil'') = Some rt"
    by auto
  have "take 1 (path rt) \<noteq> [0x23]"
  proof (rule inv[of 0 exampleEnv exampleApp "[]" _ t "js ''accueil''" rt])
    show "run 0 exampleEnv (newRouter exampleApp [])
        [RegisterRoute (js ''accueil'') (exampleConfig ''#accueil'' ''accueil'')] = Some t \<and>
      (\<forall>k c. RegisterRoute k c \<in> set [RegisterRoute (js ''accueil'') (exampleConfig ''#accueil'' ''accueil'')] \<longrightarrow>
         take 2 (orElse (config_path c) k) \<noteq> [0x23, 0x23])"
      using r by (simp add: exampleConfig_def orElse_def js_simps numeral_2_eq_2)
  qed (rule rt)
  with r rt have 3: "\<exists>t rt. run 0 exampleEnv (newRouter exampleApp [])
        [RegisterRoute (js ''accueil'') (exampleConfig ''#accueil'' ''accueil'')] = Some t \<and>
      routes t (js ''accueil'') = Some rt \<and> take 1 (path rt) \<noteq> [0x23]"
    by blast
  have 5: "registerRoute exampleRouter (js ''stats'')
      ((exampleConfig ''#stats'' ''stats'')\<lparr>config_module := Some []\<rparr>) =
     Inl (Error (js ''Configuration de route invalide pour: stats''))"
    using empty[of "(exampleConfig ''#stats'' ''stats'')\<lparr>config_module := Some []\<rparr>" exampleRouter
        "js ''stats''"]
    by (simp add: js_simps)
  show ?thesis using 1 2 3 4 5 by blast
qed

section \<open>The module cache\<close>










section \<open>The URI component codec\<close>

text \<open>Decoding undoes encoding, one escaped octet, one code point and one string at a time.\<close>

lemma hexValue_hexDigit: "d < 16 \<Longrightarrow> hexValue (hexDigit d) = Some d"
  by (auto simp: hexValue_def hexDigit_def)

lemma parseEscape_escapeOctet: "b < 256 \<Longrightarrow> parseEscape (escapeOctet b @ rest) = Some (b, rest)"
  by (simp add: escapeOctet_def hexValue_hexDigit)

lemma parseContinuation_escapeOctet:
  "x < 64 \<Longrightarrow> parseContinuation (escapeOctet (128 + x) @ rest) = Some (x, rest)"
  by (simp add: parseContinuation_def parseEscape_escapeOctet)

lemma decodeEscaped_one:
  assumes "b < 0x80"
  shows "decodeEscaped (escapeOctet b @ rest) = Some ([b], rest)"
proof -
  have "parseEscape (escapeOctet b @ rest) = Some (b, rest)"
    using assms by (intro parseEscape_escapeOctet) simp
  then show ?thesis
    using assms unfolding decodeEscaped_def by simp
qed

lemma decodeEscaped_two:
  assumes "0xC0 \<le> b" "b < 0xE0" "c1 < 64" "0x80 \<le> (b - 0xC0) * 64 + c1"
  shows "decodeEscaped (escapeOctet b @ escapeOctet (128 + c1) @ rest) =
    Some ([(b - 0xC0) * 64 + c1], rest)"
proof -
  have "parseEscape (escapeOctet b @ escapeOctet (128 + c1) @ rest) =
      Some (b, escapeOctet (128 + c1) @ rest)"
    using assms by (intro parseEscape_escapeOctet) simp
  moreover have "parseContinuation (escapeOctet (128 + c1) @ rest) = Some (c1, rest)"
    using assms by (intro parseContinuation_escapeOctet)
  ultimately show ?thesis
    using assms unfolding decodeEscaped_def by (simp add: Let_def)
qed

lemma decodeEscaped_three:
  assumes "0xE0 \<le> b" "b < 0xF0" "c1 < 64" "c2 < 64"
    and "v = (b - 0xE0) * 4096 + c1 * 64 + c2"
    and "0x800 \<le> v" "\<not> (0xD800 \<le> v \<and> v \<le> 0xDFFF)"
  shows "decodeEscaped (escapeOctet b @ escapeOctet (128 + c1) @ escapeOctet (128 + c2) @ rest) =
    Some ([v], rest)"
proof -
  have "parseEscape (escapeOctet b @ escapeOctet (128 + c1) @ escapeOctet (128 + c2) @ rest) =
      Some (b, escapeOctet (128 + c1) @ escapeOctet (128 + c2) @ rest)"
    using assms by (intro parseEscape_escapeOctet) simp
  moreover have "parseContinuation (escapeOctet (128 + c1) @ escapeOctet (128 + c2) @ rest) =
      Some (c1, escapeOctet (128 + c2) @ rest)"
    using assms by (intro parseContinuation_escapeOctet)
  moreover have "parseContinuation (escapeOctet (128 + c2) @ rest) = Some (c2, rest)"
    using assms by (intro parseContinuation_escapeOctet)
  moreover have "\<not> v < 0x800" using assms by simp
  ultimately show ?thesis
    using assms(1,2,5,7) unfolding decodeEscaped_def by (simp add: Let_def)
qed

lemma decodeEscaped_four:
  assumes "0xF0 \<le> b" "b < 0xF8" "c1 < 64" "c2 < 64" "c3 < 64"
    and "v = (b - 0xF0) * 262144 + c1 * 4096 + c2 * 64 + c3"
    and "0x10000 \<le> v" "v \<le> 0x10FFFF"
  shows "decodeEscaped (escapeOctet b @ escapeOctet (128 + c1) @ escapeOctet (128 + c2) @
      escapeOctet (128 + c3) @ rest) = Some (utf16EncodeCodePoint v, rest)"
proof -
  have "parseEscape (escapeOctet b @ escapeOctet (128 + c1) @ escapeOctet (128 + c2) @
      escapeOctet (128 + c3) @ rest) =
      Some (b, escapeOctet (128 + c1) @ escapeOctet (128 + c2) @ escapeOctet (128 + c3) @ rest)"
    using assms by (intro parseEscape_escapeOctet) simp
  moreover have "parseContinuation (escapeOctet (128 + c1) @ escapeOctet (128 + c2) @
      escapeOctet (128 + c3) @ rest) = Some (c1, escapeOctet (128 + c2) @ escapeOctet (128 + c3) @ rest)"
    using assms by (intro parseContinuation_escapeOctet)
  moreover have "parseContinuation (escapeOctet (128 + c2) @ escapeOctet (128 + c3) @ rest) =
      Some (c2, escapeOctet (128 + c3) @ rest)"
    using assms by (intro parseContinuation_escapeOctet)
  moreover have "parseContinuation (escapeOctet (128 + c3) @ rest) = Some (c3, rest)"
    using assms by (intro parseContinuation_escapeOctet)
  moreover have "\<not> v < 0x10000" "\<not> 0x10FFFF < v" using assms by simp_all
  ultimately show ?thesis
    using assms(1,2,6) unfolding decodeEscaped_def by (simp add: Let_def)
qed

lemma lin3: "q * 64 + r = x \<Longrightarrow> x * 64 + s = cp \<Longrightarrow> q * 4096 + r * 64 + s = (cp::nat)"
  by auto

lemma lin4:
  "p * 64 + q = y \<Longrightarrow> y * 64 + r = x \<Longrightarrow> x * 64 + s = cp \<Longrightarrow>
   p * 262144 + q * 4096 + r * 64 + s = (cp::nat)"
  by auto

lemma div_4096: "(cp::nat) div 4096 = cp div 64 div 64"
  using div_mult2_eq[of cp 64 64] by simp

lemma div_262144: "(cp::nat) div 262144 = cp div 64 div 64 div 64"
  using div_mult2_eq[of cp 4096 64] by (simp add: div_4096)

lemma utf8_value3: "(cp::nat) div 4096 * 4096 + (cp div 64) mod 64 * 64 + cp mod 64 = cp"
  using lin3[of "cp div 64 div 64" "cp div 64 mod 64" "cp div 64" "cp mod 64" cp]
  by (simp only: div_4096 div_mult_mod_eq)

lemma utf8_value4:
  "(cp::nat) div 262144 * 262144 + (cp div 4096) mod 64 * 4096 + (cp div 64) mod 64 * 64 +
   cp mod 64 = cp"
  using lin4[of "cp div 64 div 64 div 64" "cp div 64 div 64 mod 64" "cp div 64 div 64"
      "cp div 64 mod 64" "cp div 64" "cp mod 64" cp]
  by (simp only: div_4096 div_262144 div_mult_mod_eq)

lemma decodeEscaped_escapeCodePoint:
  assumes "isScalarValue cp"
  shows "decodeEscaped (escapeCodePoint cp @ rest) = Some (utf16EncodeCodePoint cp, rest)"
proof -
  consider "cp < 0x80" | "0x80 \<le> cp" "cp < 0x800" | "0x800 \<le> cp" "cp < 0x10000"
    | "0x10000 \<le> cp"
    by linarith
  then show ?thesis
  proof cases
    case 1
    then have "escapeCodePoint cp = escapeOctet cp"
      by (simp add: escapeCodePoint_def utf8Encode_def)
    moreover have "utf16EncodeCodePoint cp = [cp]"
      using 1 by (simp add: utf16EncodeCodePoint_def)
    ultimately show ?thesis
      using decodeEscaped_one[OF 1] by simp
  next
    case 2
    then have e: "escapeCodePoint cp = escapeOctet (0xC0 + cp div 64) @ escapeOctet (128 + cp mod 64)"
      by (simp add: escapeCodePoint_def utf8Encode_def)
    have u: "utf16EncodeCodePoint cp = [cp]"
      using 2 by (simp add: utf16EncodeCodePoint_def)
    have v: "(0xC0 + cp div 64 - 0xC0) * 64 + cp mod 64 = cp" by simp
    have "decodeEscaped (escapeOctet (0xC0 + cp div 64) @ escapeOctet (128 + cp mod 64) @ rest) =
        Some ([(0xC0 + cp div 64 - 0xC0) * 64 + cp mod 64], rest)"
    proof (rule decodeEscaped_two)
      show "0xC0 + cp div 64 < 0xE0" using 2 by simp
      show "0x80 \<le> (0xC0 + cp div 64 - 0xC0) * 64 + cp mod 64" using 2(1) unfolding v .
    qed simp_all
    then show ?thesis
      unfolding v e u by simp
  next
    case 3
    then have e: "escapeCodePoint cp = escapeOctet (0xE0 + cp div 4096) @
        escapeOctet (128 + cp div 64 mod 64) @ escapeOctet (128 + cp mod 64)"
      by (simp add: escapeCodePoint_def utf8Encode_def)
    have u: "utf16EncodeCodePoint cp = [cp]"
      using 3 by (simp add: utf16EncodeCodePoint_def)
    have v: "cp = (0xE0 + cp div 4096 - 0xE0) * 4096 + cp div 64 mod 64 * 64 + cp mod 64"
      using utf8_value3[of cp] by simp
    have "decodeEscaped (escapeOctet (0xE0 + cp div 4096) @
        escapeOctet (128 + cp div 64 mod 64) @ escapeOctet (128 + cp mod 64) @ rest) =
        Some ([cp], rest)"
    proof (rule decodeEscaped_three)
      show "0xE0 + cp div 4096 < 0xF0" using 3 by simp
      show "cp = (0xE0 + cp div 4096 - 0xE0) * 4096 + cp div 64 mod 64 * 64 + cp mod 64"
        by (rule v)
      show "0x800 \<le> cp" by (rule 3)
      show "\<not> (0xD800 \<le> cp \<and> cp \<le> 0xDFFF)" using assms by (simp add: isScalarValue_def)
    qed simp_all
    then show ?thesis
      unfolding e u by simp
  next
    case 4
    then have e: "escapeCodePoint cp = escapeOctet (0xF0 + cp div 262144) @
        escapeOctet (128 + cp div 4096 mod 64) @ escapeOctet (128 + cp div 64 mod 64) @
        escapeOctet (128 + cp mod 64)"
      by (simp add: escapeCodePoint_def utf8Encode_def)
    have v: "cp = (0xF0 + cp div 262144 - 0xF0) * 262144 + cp div 4096 mod 64 * 4096 +
        cp div 64 mod 64 * 64 + cp mod 64"
      using utf8_value4[of cp] by simp
    have lt: "cp < 0x110000" using assms by (simp add: isScalarValue_def)
    have "decodeEscaped (escapeOctet (0xF0 + cp div 262144) @
        escapeOctet (128 + cp div 4096 mod 64) @ escapeOctet (128 + cp div 64 mod 64) @
        escapeOctet (128 + cp mod 64) @ rest) = Some (utf16EncodeCodePoint cp, rest)"
    proof (rule decodeEscaped_four)
      show "0xF0 + cp div 262144 < 0xF8" using lt by simp
      show "cp = (0xF0 + cp div 262144 - 0xF0) * 262144 + cp div 4096 mod 64 * 4096 +
        cp div 64 mod 64 * 64 + cp mod 64"
        by (rule v)
      show "0x10000 \<le> cp" by (rule 4)
      show "cp \<le> 0x10FFFF" using lt by simp
    qed simp_all
    then show ?thesis
      unfolding e by simp
  qed
qed

lemma escapeCodePoint_Cons: "\<exists>x. escapeCodePoint cp = 0x25 # x"
  by (simp add: escapeCodePoint_def utf8Encode_def escapeOctet_def)

lemma decodeURIComponent_escapeCodePoint:
  assumes "isScalarValue cp"
  shows "decodeURIComponent (escapeCodePoint cp @ rest) =
    map_option (append (utf16EncodeCodePoint cp)) (decodeURIComponent rest)"
proof -
  obtain x where x: "escapeCodePoint cp = 0x25 # x"
    using escapeCodePoint_Cons by blast
  have "decodeEscaped (0x25 # x @ rest) = Some (utf16EncodeCodePoint cp, rest)"
    using decodeEscaped_escapeCodePoint[OF assms, of rest] by (simp add: x)
  then show ?thesis
    by (simp add: x)
qed

lemma div_1024: "b < 1024 \<Longrightarrow> (a * 1024 + b) div 1024 = (a::nat)"
  by simp

lemma mod_1024: "b < 1024 \<Longrightarrow> (a * 1024 + b) mod 1024 = (b::nat)"
  by simp

lemma surrogatePair_roundtrip:
  assumes "isLeadingSurrogate c" "isTrailingSurrogate d"
  shows "utf16EncodeCodePoint (surrogatePairToCodePoint c d) = [c, d]"
    and "isScalarValue (surrogatePairToCodePoint c d)"
proof -
  define a where "a = c - 0xD800"
  define b where "b = d - 0xDC00"
  have c: "c = a + 0xD800" and a: "a < 1024"
    using assms(1) by (auto simp: a_def isLeadingSurrogate_def)
  have d: "d = b + 0xDC00" and b: "b < 1024"
    using assms(2) by (auto simp: b_def isTrailingSurrogate_def)
  have p: "surrogatePairToCodePoint c d = a * 1024 + b + 0x10000"
    by (simp add: surrogatePairToCodePoint_def a_def b_def)
  show "utf16EncodeCodePoint (surrogatePairToCodePoint c d) = [c, d]"
    unfolding p utf16EncodeCodePoint_def using div_1024[OF b, of a] mod_1024[OF b, of a]
    by (simp add: c d)
  have "a * 1024 \<le> 1023 * 1024" using a by simp
  then have "a * 1024 + b + 0x10000 < 0x110000" using b by simp
  then show "isScalarValue (surrogatePairToCodePoint c d)"
    unfolding p isScalarValue_def by simp
qed

lemma decode_encode:
  "encodeURIComponent s = Some r \<Longrightarrow> \<forall>c\<in>set s. c < 0x10000 \<Longrightarrow> decodeURIComponent r = Some s"
proof (induction s arbitrary: r rule: encodeURIComponent.induct)
  case 1
  then show ?case by simp
next
  case (2 c rest)
  show ?case
  proof (cases "uriUnreserved c")
    case True
    then obtain r' where r': "encodeURIComponent rest = Some r'" "r = c # r'"
      using "2.prems"(1) by auto
    have "c \<noteq> 0x25" using True by (auto simp: uriUnreserved_def)
    moreover have "decodeURIComponent r' = Some rest"
      using "2.IH"(1)[OF True r'(1)] "2.prems"(2) by simp
    ultimately show ?thesis by (simp add: r'(2))
  next
    case False
    note unres = this
    show ?thesis
    proof (cases "\<not> isLeadingSurrogate c \<and> \<not> isTrailingSurrogate c")
      case True
      then obtain r' where r': "encodeURIComponent rest = Some r'" "r = escapeCodePoint c @ r'"
        using "2.prems"(1) unres by auto
      have "c < 0x10000" using "2.prems"(2) by simp
      then have sc: "isScalarValue c" and u: "utf16EncodeCodePoint c = [c]"
        using True
        by (auto simp: isScalarValue_def isLeadingSurrogate_def isTrailingSurrogate_def
            utf16EncodeCodePoint_def)
      have "decodeURIComponent r' = Some rest"
        using "2.IH"(2)[OF unres True r'(1)] "2.prems"(2) by simp
      then show ?thesis
        by (simp add: r'(2) decodeURIComponent_escapeCodePoint[OF sc] u)
    next
      case False
      then have lead: "isLeadingSurrogate c" and nt: "\<not> isTrailingSurrogate c"
        using "2.prems"(1) unres by (auto split: if_splits)
      from "2.prems"(1) unres False nt obtain d rest' r'
        where d: "rest = d # rest'" "isTrailingSurrogate d"
          "encodeURIComponent rest' = Some r'"
          "r = escapeCodePoint (surrogatePairToCodePoint c d) @ r'"
        by (auto split: list.splits if_splits)
      have "decodeURIComponent r' = Some rest'"
        using "2.IH"(3)[OF unres False nt d(1) d(2) d(3)] "2.prems"(2) d(1) by simp
      then show ?thesis
        using surrogatePair_roundtrip[OF lead d(2)]
        by (simp add: d(1,4) decodeURIComponent_escapeCodePoint)
    qed
  qed
qed

lemma isWellFormed_units: "isWellFormed s \<Longrightarrow> \<forall>c\<in>set s. c < 0x10000"
  by (induction s rule: isWellFormed.induct)
    (auto simp: isTrailingSurrogate_def split: if_splits)

lemma uriUnreserved_not_surrogate:
  "uriUnreserved c \<Longrightarrow> \<not> isLeadingSurrogate c \<and> \<not> isTrailingSurrogate c"
  by (auto simp: uriUnreserved_def isLeadingSurrogate_def isTrailingSurrogate_def)

lemma leading_not_trailing: "isLeadingSurrogate c \<Longrightarrow> \<not> isTrailingSurrogate c"
  by (simp add: isLeadingSurrogate_def isTrailingSurrogate_def)

lemma isWellFormed_encode: "isWellFormed s \<Longrightarrow> \<exists>r. encodeURIComponent s = Some r"
  by (induction s rule: isWellFormed.induct)
    (auto split: if_splits dest: uriUnreserved_not_surrogate leading_not_trailing)

lemma escapeOctet_chars: "c \<in> set (escapeOctet b) \<Longrightarrow> c \<noteq> 0x26 \<and> c \<noteq> 0x3D"
  by (auto simp: escapeOctet_def hexDigit_def split: if_splits)

lemma escapeCodePoint_chars: "c \<in> set (escapeCodePoint cp) \<Longrightarrow> c \<noteq> 0x26 \<and> c \<noteq> 0x3D"
  by (auto simp: escapeCodePoint_def dest: escapeOctet_chars)

lemma encode_chars:
  "encodeURIComponent s = Some r \<Longrightarrow> c \<in> set r \<Longrightarrow> c \<noteq> 0x26 \<and> c \<noteq> 0x3D"
proof (induction s arbitrary: r rule: encodeURIComponent.induct)
  case 1
  then show ?case by simp
next
  case (2 u rest)
  show ?case
  proof (cases "uriUnreserved u")
    case True
    then obtain r' where r': "encodeURIComponent rest = Some r'" "r = u # r'"
      using "2.prems"(1) by auto
    have "u \<noteq> 0x26 \<and> u \<noteq> 0x3D" using True by (auto simp: uriUnreserved_def)
    then show ?thesis
      using "2.IH"(1)[OF True r'(1)] "2.prems"(2) r'(2) by auto
  next
    case False
    note unres = this
    show ?thesis
    proof (cases "\<not> isLeadingSurrogate u \<and> \<not> isTrailingSurrogate u")
      case True
      then obtain r' where r': "encodeURIComponent rest = Some r'" "r = escapeCodePoint u @ r'"
        using "2.prems"(1) unres by auto
      show ?thesis
        using "2.IH"(2)[OF unres True r'(1)] "2.prems"(2) r'(2)
        by (auto dest: escapeCodePoint_chars)
    next
      case False
      then have nt: "\<not> isTrailingSurrogate u"
        using "2.prems"(1) unres by (auto split: if_splits)
      from "2.prems"(1) unres False nt obtain d rest' r'
        where d: "rest = d # rest'" "isTrailingSurrogate d"
          "encodeURIComponent rest' = Some r'"
          "r = escapeCodePoint (surrogatePairToCodePoint u d) @ r'"
        by (auto split: list.splits if_splits)
      show ?thesis
        using "2.IH"(3)[OF unres False nt d(1) d(2) d(3)] "2.prems"(2) d(4)
        by (auto dest: escapeCodePoint_chars)
    qed
  qed
qed

lemma escapeCodePoint_nonempty: "escapeCodePoint cp \<noteq> []"
  using escapeCodePoint_Cons[of cp] by auto

lemma encode_nonempty: "encodeURIComponent s = Some [] \<Longrightarrow> s = []"
  by (cases s) (auto split: if_splits list.splits simp: escapeCodePoint_nonempty)

section \<open>Query strings\<close>

lemma split_no_separator: "sep \<notin> set s \<Longrightarrow> split sep s = [s]"
  by (induction s) auto

lemma split_append:
  "sep \<notin> set a \<Longrightarrow> split sep (a @ sep # b) = a # split sep b"
  by (induction a) auto

lemma split_join:
  "parts \<noteq> [] \<Longrightarrow> \<forall>p\<in>set parts. sep \<notin> set p \<Longrightarrow> split sep (join sep parts) = parts"
proof (induction sep parts rule: join.induct)
  case (1 sep)
  then show ?case by simp
next
  case (2 sep p)
  then show ?case by (simp add: split_no_separator)
next
  case (3 sep p q ps)
  then show ?case by (simp add: split_append)
qed

lemma update_fresh: "k \<notin> fst ` set al \<Longrightarrow> AList.update k v al = al @ [(k, v)]"
  by (induction al) auto


lemma buildQueryParts_parts:
  "\<forall>(k, v)\<in>set q. v \<noteq> QNull \<and> v \<noteq> QUndefined \<and> queryPart k v \<noteq> None \<Longrightarrow>
   buildQueryParts q acc = Inr (acc @ map (\<lambda>(k, v). the (queryPart k v)) q)"
proof (induction q arbitrary: acc)
  case Nil
  then show ?case by simp
next
  case (Cons e q)
  obtain k v where e: "e = (k, v)" by (cases e)
  from Cons.prems e have v: "v \<noteq> QNull" "v \<noteq> QUndefined" and p: "queryPart k v \<noteq> None"
    by auto
  from Cons.prems have rest: "\<forall>(k, v)\<in>set q. v \<noteq> QNull \<and> v \<noteq> QUndefined \<and> queryPart k v \<noteq> None"
    by simp
  from p obtain part where part: "queryPart k v = Some part" by auto
  then have "buildQueryParts ((k, v) # q) acc = buildQueryParts q (acc @ [part])"
    using v by (auto simp: queryPart_def split: option.splits qvalue.splits)
  then show ?case
    using Cons.IH[OF rest, of "acc @ [part]"] part e by simp
qed


lemma roundTrips_part:
  assumes "roundTrips k v"
  shows "\<exists>part. queryPart k v = Some part \<and> part \<noteq> [] \<and> 0x26 \<notin> set part \<and>
    (\<forall>rest obj. parseParams (part # rest) obj = parseParams rest (setProperty obj k v))"
proof -
  from assms have k: "k \<noteq> []" "isWellFormed k"
    by (simp_all add: roundTrips_def)
  obtain ek where ek: "encodeURIComponent k = Some ek"
    using isWellFormed_encode[OF k(2)] by blast
  have dk: "decodeURIComponent ek = Some k"
    using decode_encode[OF ek isWellFormed_units[OF k(2)]] .
  have ek_ne: "ek \<noteq> []"
    using ek k(1) encode_nonempty by blast
  have ek_chars: "0x26 \<notin> set ek" "0x3D \<notin> set ek"
    using encode_chars[OF ek] by blast+
  show ?thesis
  proof (cases v)
    case QTrue
    have "queryPart k v = Some ek"
      by (simp add: queryPart_def ek QTrue)
    moreover have "parseParams (ek # rest) obj = parseParams rest (setProperty obj k v)"
      for rest obj
      using ek_ne dk by (simp add: split_no_separator[OF ek_chars(2)] QTrue)
    ultimately show ?thesis
      using ek_ne ek_chars(1) by blast
  next
    case (QString str)
    with assms have s: "str \<noteq> []" "isWellFormed str"
      by (simp_all add: roundTrips_def)
    obtain ev where ev: "encodeURIComponent str = Some ev"
      using isWellFormed_encode[OF s(2)] by blast
    have dv: "decodeURIComponent ev = Some str"
      using decode_encode[OF ev isWellFormed_units[OF s(2)]] .
    have ev_ne: "ev \<noteq> []"
      using ev s(1) encode_nonempty by blast
    have ev_chars: "0x26 \<notin> set ev" "0x3D \<notin> set ev"
      using encode_chars[OF ev] by blast+
    have "queryPart k v = Some (ek @ 0x3D # ev)"
      by (simp add: queryPart_def ek ev QString)
    moreover have "split 0x3D (ek @ 0x3D # ev) = [ek, ev]"
      by (simp add: split_append[OF ek_chars(2)] split_no_separator[OF ev_chars(2)])
    then have "parseParams ((ek @ 0x3D # ev) # rest) obj =
        parseParams rest (setProperty obj k v)" for rest obj
      using ek_ne ev_ne dk dv by (simp add: QString)
    moreover have "0x26 \<notin> set (ek @ 0x3D # ev)"
      using ek_chars(1) ev_chars(1) by simp
    ultimately show ?thesis
      by blast
  next
    case QNull
    with assms show ?thesis by (simp add: roundTrips_def)
  next
    case QUndefined
    with assms show ?thesis by (simp add: roundTrips_def)
  qed
qed

lemma parseParams_parts:
  "\<forall>(k, v)\<in>set q. roundTrips k v \<and> k \<noteq> js ''__proto__'' \<Longrightarrow>
   distinct (map fst q) \<Longrightarrow> fst ` set obj \<inter> fst ` set q = {} \<Longrightarrow>
   parseParams (map (\<lambda>(k, v). the (queryPart k v)) q) obj = Inr (obj @ q)"
proof (induction q arbitrary: obj)
  case Nil
  then show ?case by simp
next
  case (Cons e q)
  obtain k v where e: "e = (k, v)" by (cases e)
  from Cons.prems(1) e have rt: "roundTrips k v" and np: "k \<noteq> js ''__proto__''"
    by auto
  from roundTrips_part[OF rt] obtain part where part: "queryPart k v = Some part"
    "\<And>rest obj. parseParams (part # rest) obj = parseParams rest (setProperty obj k v)"
    by blast
  have fresh: "k \<notin> fst ` set obj"
    using Cons.prems(3) e by auto
  have sp: "setProperty obj k v = obj @ [(k, v)]"
    using np by (simp add: setProperty_def update_fresh[OF fresh])
  have ih: "parseParams (map (\<lambda>(k, v). the (queryPart k v)) q) (obj @ [(k, v)]) =
      Inr ((obj @ [(k, v)]) @ q)"
  proof (rule Cons.IH)
    show "\<forall>(k, v)\<in>set q. roundTrips k v \<and> k \<noteq> js ''__proto__''"
      using Cons.prems(1) by simp
    show "distinct (map fst q)"
      using Cons.prems(2) by simp
    show "fst ` set (obj @ [(k, v)]) \<inter> fst ` set q = {}"
      using Cons.prems(2,3) e by auto
  qed
  have "parseParams (map (\<lambda>(k, v). the (queryPart k v)) (e # q)) obj =
      parseParams (part # map (\<lambda>(k, v). the (queryPart k v)) q) obj"
    by (simp add: e part(1) del: parseParams.simps)
  also have "\<dots> = parseParams (map (\<lambda>(k, v). the (queryPart k v)) q) (setProperty obj k v)"
    by (rule part(2))
  also have "\<dots> = Inr ((obj @ [(k, v)]) @ q)"
    unfolding sp by (rule ih)
  finally show ?case
    by (simp add: e)
qed

lemma join_nonempty: "p \<noteq> [] \<Longrightarrow> join sep (p # ps) \<noteq> []"
  by (cases ps) simp_all

lemma codec_simps:
  "uriUnreserved c \<longleftrightarrow>
     (0x41 \<le> c \<and> c \<le> 0x5A) \<or> (0x61 \<le> c \<and> c \<le> 0x7A) \<or> (0x30 \<le> c \<and> c \<le> 0x39) \<or>
     c = 0x2D \<or> c = 0x5F \<or> c = 0x2E \<or> c = 0x21 \<or> c = 0x7E \<or> c = 0x2A \<or>
     c = 0x27 \<or> c = 0x28 \<or> c = 0x29"
  "isLeadingSurrogate c \<longleftrightarrow> 0xD800 \<le> c \<and> c \<le> 0xDBFF"
  "isTrailingSurrogate c \<longleftrightarrow> 0xDC00 \<le> c \<and> c \<le> 0xDFFF"
  by (simp_all add: uriUnreserved_def isLeadingSurrogate_def isTrailingSurrogate_def)



text \<open>
  C5, as stated, fails: \<open>buildQueryString\<close> puts \<open>?\<close> in front and \<open>parseQueryString\<close>
  does not take it off, so \<open>{a: "b"}\<close> comes back as \<open>{"?a": "b"}\<close>.
\<close>

theorem query_roundtrip_counterexample:
  "buildQueryString [(js ''a'', QString (js ''b''))] = Inr (js ''?a=b'') \<and>
   parseQueryString (js ''?a=b'') = Inr [(js ''?a'', QString (js ''b''))] \<and>
   map_of [(js ''?a'', QString (js ''b''))] (js ''a'') = None \<and>
   map_of [(js ''a'', QString (js ''b''))] (js ''a'') = Some (QString (js ''b''))"
  by (simp add: buildQueryString_def parseQueryString_def setProperty_def js_simps codec_simps)

text \<open>
  C5, amended. For a mapping with non-empty well-formed keys other than \<open>__proto__\<close> and
  values that are \<open>true\<close> or non-empty well-formed strings, \<open>buildQueryString\<close> succeeds,
  and \<open>parseQueryString\<close> of its result without the leading \<open>?\<close> gives the same mapping.
\<close>

theorem query_roundtrip:
  assumes "distinct (map fst q)"
    and "\<forall>(k, v)\<in>set q. k \<noteq> [] \<and> k \<noteq> js ''__proto__'' \<and> isWellFormed k \<and>
           (v = QTrue \<or> (\<exists>str. v = QString str \<and> str \<noteq> [] \<and> isWellFormed str))"
  shows "\<exists>b r. buildQueryString q = Inr b \<and> parseQueryString (drop 1 b) = Inr r \<and>
    map_of r = map_of q"
proof -
  have rt: "\<forall>(k, v)\<in>set q. roundTrips k v \<and> k \<noteq> js ''__proto__''"
  proof (clarify)
    fix k v assume "(k, v) \<in> set q"
    with assms(2) have "k \<noteq> [] \<and> k \<noteq> js ''__proto__'' \<and> isWellFormed k \<and>
           (v = QTrue \<or> (\<exists>str. v = QString str \<and> str \<noteq> [] \<and> isWellFormed str))"
      by blast
    then show "roundTrips k v \<and> k \<noteq> js ''__proto__''"
      by (auto simp: roundTrips_def)
  qed
  define parts where "parts = map (\<lambda>(k, v). the (queryPart k v)) q"
  have ok: "\<forall>(k, v)\<in>set q. v \<noteq> QNull \<and> v \<noteq> QUndefined \<and> queryPart k v \<noteq> None"
  proof (clarify, intro conjI)
    fix k v assume "(k, v) \<in> set q"
    with rt have r: "roundTrips k v" by auto
    then show "v \<noteq> QNull" "v \<noteq> QUndefined"
      by (auto simp: roundTrips_def)
    from roundTrips_part[OF r] obtain part where "queryPart k v = Some part"
      by blast
    then show "queryPart k v \<noteq> None" by simp
  qed
  have build: "buildQueryParts q [] = Inr parts"
    using buildQueryParts_parts[OF ok, of "[]"] by (simp add: parts_def)
  have parse: "parseParams parts [] = Inr q"
    using parseParams_parts[OF rt assms(1), of "[]"] by (simp add: parts_def)
  show ?thesis
  proof (cases q)
    case Nil
    then show ?thesis
      by (simp add: buildQueryString_def parseQueryString_def)
  next
    case (Cons e q')
    then have ne: "parts \<noteq> []" by (simp add: parts_def)
    have props: "\<forall>p\<in>set parts. p \<noteq> [] \<and> 0x26 \<notin> set p"
    proof
      fix p assume "p \<in> set parts"
      then obtain k v where kv: "(k, v) \<in> set q" "p = the (queryPart k v)"
        by (auto simp: parts_def)
      with rt have "roundTrips k v" by auto
      from roundTrips_part[OF this] obtain part
        where "queryPart k v = Some part" "part \<noteq> []" "0x26 \<notin> set part"
        by blast
      with kv(2) show "p \<noteq> [] \<and> 0x26 \<notin> set p"
        by simp
    qed
    then have "\<forall>p\<in>set parts. 0x26 \<notin> set p"
      by blast
    with ne have sj: "split 0x26 (join 0x26 parts) = parts"
      by (rule split_join)
    obtain p ps where pps: "parts = p # ps"
      using ne by (cases parts) auto
    with props have "p \<noteq> []" by simp
    then have "join 0x26 parts \<noteq> []"
      unfolding pps by (rule join_nonempty)
    then have "parseQueryString (join 0x26 parts) = Inr q"
      by (simp add: parseQueryString_def sj parse)
    moreover have "buildQueryString q = Inr (0x3F # join 0x26 parts)"
      using ne by (simp add: buildQueryString_def build)
    ultimately show ?thesis
      by simp
  qed
qed

theorem query_roundtrip_witness:
  "buildQueryString exampleQuery = Inr (js ''?a=b%20c&k'') \<and>
   (\<exists>r. parseQueryString (js ''a=b%20c&k'') = Inr r \<and> map_of r = map_of exampleQuery)"
proof -
  have b: "buildQueryString exampleQuery = Inr (js ''?a=b%20c&k'')"
    by (simp add: exampleQuery_def buildQueryString_def js_simps codec_simps
        escapeCodePoint_def utf8Encode_def escapeOctet_def hexDigit_def)
  have "\<exists>b r. buildQueryString exampleQuery = Inr b \<and> parseQueryString (drop 1 b) = Inr r \<and>
      map_of r = map_of exampleQuery"
    by (rule query_roundtrip) (simp_all add: exampleQuery_def js_simps codec_simps)
  then show ?thesis
    using b by (simp add: js_simps)
qed

end
